theory Spec2Isabelle
  imports Main
begin

section \<open>Hexagonal coordinates\<close>

text \<open>
  The class \<open>Hex\<close> of \<open>src/games/puzzle-curator.js\<close>: an axial coordinate pair.
  The board is keyed by \<open>hex.toString()\<close>, the text \<open>q,r\<close>; \<open>Hex.fromString\<close>
  reads it back. On integer coordinates the two are inverse to each other, so the
  model keys the board by the coordinate itself.
\<close>

datatype hex = Hex (hq: int) (hr: int)

definition directions :: "hex list" where
  "directions = [Hex 1 0, Hex 1 (-1), Hex 0 (-1), Hex (-1) 0, Hex (-1) 1, Hex 0 1]"

definition hex_add :: "hex \<Rightarrow> hex \<Rightarrow> hex" where
  "hex_add a d = Hex (hq a + hq d) (hr a + hr d)"

definition getNeighbors :: "hex \<Rightarrow> hex list" where
  "getNeighbors h = map (\<lambda>d. Hex (hq h + hq d) (hr h + hr d)) directions"

text \<open>
  \<open>distance\<close> halves a sum of three absolute values; on integers the sum is even,
  so the JavaScript division is exact and \<open>div\<close> gives the same number.
\<close>

definition distance :: "hex \<Rightarrow> hex \<Rightarrow> int" where
  "distance a b =
     (\<bar>hq a - hq b\<bar> + \<bar>hr a - hr b\<bar> + \<bar>(hq a + hr a) - (hq b + hr b)\<bar>) div 2"

section \<open>Pieces and the board\<close>

datatype player = P1 | P2

datatype kind = Queen | Ant | Beetle | Hopper | Spider | Mosquito | Ladybug | Pillbug

text \<open>
  A piece is \<open>{player, insect, id}\<close>. The id is the text
  \<open>player-insectType-Date.now()\<close>, modelled by its three components.
\<close>

type_synonym insect_id = "player \<times> kind \<times> nat"

record insect =
  player :: player
  insect :: kind
  id :: insect_id

text \<open>
  \<open>gameState.board\<close> is a JavaScript \<open>Map\<close> from keys to stacks (arrays, the top
  piece last). A \<open>Map\<close> iterates in insertion order, and several functions depend on
  that order, so the board is an association list in insertion order.
\<close>

type_synonym board = "(hex \<times> insect list) list"

definition board_keys :: "board \<Rightarrow> hex list" where
  "board_keys b = map fst b"

definition getTopInsect :: "board \<Rightarrow> hex \<Rightarrow> insect option" where
  "getTopInsect b k =
     (case map_of b k of
        None \<Rightarrow> None
      | Some stack \<Rightarrow> if stack = [] then None else Some (last stack))"

definition getInsectStack :: "board \<Rightarrow> hex \<Rightarrow> insect list" where
  "getInsectStack b k = (case map_of b k of None \<Rightarrow> [] | Some stack \<Rightarrow> stack)"

definition isHexOccupied :: "board \<Rightarrow> hex \<Rightarrow> bool" where
  "isHexOccupied b k = (case map_of b k of None \<Rightarrow> False | Some stack \<Rightarrow> 0 < length stack)"

definition addInsectToHex :: "board \<Rightarrow> hex \<Rightarrow> insect \<Rightarrow> board" where
  "addInsectToHex b k x =
     (if k \<in> set (board_keys b)
      then map (\<lambda>(k', stack). if k' = k then (k', stack @ [x]) else (k', stack)) b
      else b @ [(k, [x])])"

text \<open>
  The two properties of a board that the program maintains: a \<open>Map\<close> has each key
  once, and a stack that becomes empty is deleted at once.
\<close>

definition wf_board :: "board \<Rightarrow> bool" where
  "wf_board b = (distinct (board_keys b) \<and> list_all (\<lambda>(k, stack). stack \<noteq> []) b)"

subsection \<open>Example pieces and boards\<close>

definition q1 :: insect where
  "q1 = \<lparr>player = P1, insect = Queen, id = (P1, Queen, 1)\<rparr>"

definition q2 :: insect where
  "q2 = \<lparr>player = P2, insect = Queen, id = (P2, Queen, 2)\<rparr>"

definition b2 :: insect where
  "b2 = \<lparr>player = P2, insect = Beetle, id = (P2, Beetle, 3)\<rparr>"

definition a1 :: insect where
  "a1 = \<lparr>player = P1, insect = Ant, id = (P1, Ant, 4)\<rparr>"

definition h1 :: insect where
  "h1 = \<lparr>player = P1, insect = Hopper, id = (P1, Hopper, 5)\<rparr>"

definition s2 :: insect where
  "s2 = \<lparr>player = P2, insect = Spider, id = (P2, Spider, 8)\<rparr>"

definition covered_board :: board where
  "covered_board = [(Hex 0 0, [q1, b2]), (Hex 1 0, [q2])]"

definition beetle_board :: board where
  "beetle_board = [(Hex 0 0, [b2]), (Hex 1 0, [q2])]"


definition hopper_board :: board where
  "hopper_board = [(Hex 0 0, [h1]), (Hex 1 0, [q2]), (Hex 2 0, [q1])]"

definition ring_board :: board where
  "ring_board = [(Hex 0 0, [q1, b2]), (Hex (-1) 1, [a1]), (Hex (-1) 2, [h1]),
                 (Hex 0 2, [q2]), (Hex 1 1, [s2])]"

definition ant_board :: board where
  "ant_board = [(Hex 0 0, [a1]), (Hex 1 0, [q2]), (Hex 2 0, [q1])]"

lemmas example_pieces = q1_def q2_def b2_def a1_def h1_def s2_def

section \<open>Movement primitives\<close>

text \<open>
  The methods of \<open>MovementSystem\<close> read the global board; here the board is their
  first argument. The test \<open>stack.length === 1 && stack[0].id === movingInsectId\<close>
  is written out in many of them: a hex that holds the moving piece and nothing else.
\<close>

definition movingInsectOnly :: "board \<Rightarrow> insect_id \<Rightarrow> hex \<Rightarrow> bool" where
  "movingInsectOnly b movingInsectId k =
     (case getInsectStack b k of [x] \<Rightarrow> id x = movingInsectId | _ \<Rightarrow> False)"

text \<open>A hex with a non-empty stack that is not the moving piece alone.\<close>

definition occupiedByOther :: "board \<Rightarrow> insect_id \<Rightarrow> hex \<Rightarrow> bool" where
  "occupiedByOther b movingInsectId k =
     (0 < length (getInsectStack b k) \<and> \<not> movingInsectOnly b movingInsectId k)"

definition commonNeighbors :: "hex \<Rightarrow> hex \<Rightarrow> hex list" where
  "commonNeighbors fromHex toHex =
     filter (\<lambda>fHex. list_ex (\<lambda>tHex. fHex = tHex) (getNeighbors toHex)) (getNeighbors fromHex)"

definition isGate :: "board \<Rightarrow> hex \<Rightarrow> hex \<Rightarrow> insect_id \<Rightarrow> bool" where
  "isGate b fromHex toHex movingInsectId =
     (let common = commonNeighbors fromHex toHex
      in if length common \<noteq> 2 then False
         else (let occupiedCount =
                     length (filter (\<lambda>c. isHexOccupied b c \<and> occupiedByOther b movingInsectId c)
                               common)
               in occupiedCount = 2))"

text \<open>\<open>touchesHive(hex, movingInsectId, excludeHex = null)\<close>.\<close>

definition touchesHive :: "board \<Rightarrow> hex \<Rightarrow> insect_id \<Rightarrow> hex option \<Rightarrow> bool" where
  "touchesHive b h movingInsectId excludeHex =
     list_ex (\<lambda>n. excludeHex \<noteq> Some n \<and> isHexOccupied b n \<and> occupiedByOther b movingInsectId n)
       (getNeighbors h)"

definition getWalkingNeighbors :: "board \<Rightarrow> hex \<Rightarrow> insect_id \<Rightarrow> hex list" where
  "getWalkingNeighbors b h movingInsectId =
     filter (\<lambda>n. \<not> isHexOccupied b n \<and> \<not> isGate b h n movingInsectId
                \<and> touchesHive b n movingInsectId (Some h))
       (getNeighbors h)"

text \<open>
  What every path finder returns: \<open>{success, path, blockedAt}\<close>, with \<open>copiedFrom\<close>
  set by the mosquito and \<open>isPillbugThrow\<close> by the throw.
\<close>

record path_result =
  success :: bool
  path :: "hex list"
  blockedAt :: "hex option"
  copiedFrom :: "kind option"
  isPillbugThrow :: "bool option"

definition path_found :: "hex list \<Rightarrow> path_result" where
  "path_found p =
     \<lparr>success = True, path = p, blockedAt = None, copiedFrom = None, isPillbugThrow = None\<rparr>"

definition path_blocked :: "hex list \<Rightarrow> hex option \<Rightarrow> path_result" where
  "path_blocked p h =
     \<lparr>success = False, path = p, blockedAt = h, copiedFrom = None, isPillbugThrow = None\<rparr>"

section \<open>Grasshopper\<close>

text \<open>
  \<open>findHopperLanding\<close>: the \<open>while (true)\<close> loop over the hexes of one direction,
  with its counter. The loop gives up once the counter passes 50, which bounds it.
\<close>

function hopperLandingLoop :: "board \<Rightarrow> hex \<Rightarrow> insect_id \<Rightarrow> hex \<Rightarrow> nat \<Rightarrow> hex option" where
  "hopperLandingLoop b direction movingInsectId currentHex jumpedOverCount =
     (if \<not> isHexOccupied b currentHex \<or> movingInsectOnly b movingInsectId currentHex
      then (if jumpedOverCount = 0 then None else Some currentHex)
      else (if jumpedOverCount + 1 > 50 then None
            else hopperLandingLoop b direction movingInsectId
                   (hex_add currentHex direction) (jumpedOverCount + 1)))"
  by pat_completeness auto
termination
  by (relation "measure (\<lambda>(b, d, m, c, n). 51 - n)") auto

declare hopperLandingLoop.simps [simp del]

definition findHopperLanding :: "board \<Rightarrow> hex \<Rightarrow> hex \<Rightarrow> insect_id \<Rightarrow> hex option" where
  "findHopperLanding b fromHex direction movingInsectId =
     hopperLandingLoop b direction movingInsectId (hex_add fromHex direction) 0"

text \<open>
  \<open>buildHopperJumpPath\<close> walks from the origin in the direction until it meets the
  target. Nothing bounds that loop: for a target off the line it never returns, which
  is the value \<open>None\<close> here.
\<close>

partial_function (option) hopperPathLoop :: "hex \<Rightarrow> hex \<Rightarrow> hex \<Rightarrow> hex list \<Rightarrow> hex list option"
  where
  "hopperPathLoop toHex direction currentHex p =
     (if currentHex = toHex then Some (p @ [toHex])
      else hopperPathLoop toHex direction (hex_add currentHex direction) (p @ [currentHex]))"

definition buildHopperJumpPath :: "hex \<Rightarrow> hex \<Rightarrow> hex \<Rightarrow> hex list option" where
  "buildHopperJumpPath fromHex toHex direction =
     hopperPathLoop toHex direction (hex_add fromHex direction) [fromHex]"

text \<open>
  \<open>findHopperPath\<close> tries the six directions in order. It builds the path only for
  a direction whose landing hex is the target; \<open>buildHopperJumpPath_returns\<close> below
  shows that the path loop returns there.
\<close>

fun hopperDirections :: "board \<Rightarrow> hex \<Rightarrow> hex \<Rightarrow> insect_id \<Rightarrow> hex list \<Rightarrow> path_result" where
  "hopperDirections b fromHex toHex movingInsectId [] = path_blocked [fromHex] (Some fromHex)"
| "hopperDirections b fromHex toHex movingInsectId (dir # dirs) =
     (if findHopperLanding b fromHex dir movingInsectId = Some toHex
      then path_found (the (buildHopperJumpPath fromHex toHex dir))
      else hopperDirections b fromHex toHex movingInsectId dirs)"

definition findHopperPath :: "board \<Rightarrow> hex \<Rightarrow> hex \<Rightarrow> insect_id \<Rightarrow> path_result" where
  "findHopperPath b fromHex toHex movingInsectId =
     hopperDirections b fromHex toHex movingInsectId directions"

text \<open>The hex \<open>n\<close> steps from \<open>h\<close> in direction \<open>d\<close>.\<close>

definition ray :: "hex \<Rightarrow> hex \<Rightarrow> nat \<Rightarrow> hex" where
  "ray h d n = Hex (hq h + int n * hq d) (hr h + int n * hr d)"

subsection \<open>Facts about the grasshopper\<close>

lemma ray_0: "ray h d 0 = h" by (simp add: ray_def)
lemma ray_Suc: "ray (hex_add h d) d n = ray h d (Suc n)"
  by (simp add: ray_def hex_add_def algebra_simps)

lemma hopperLandingLoop_inv:
  "hopperLandingLoop b d mid cur cnt = Some l \<Longrightarrow>
   \<exists>m. l = ray cur d m \<and> 1 \<le> cnt + m
      \<and> (\<forall>i<m. isHexOccupied b (ray cur d i) \<and> \<not> movingInsectOnly b mid (ray cur d i))
      \<and> (\<not> isHexOccupied b l \<or> movingInsectOnly b mid l)"
proof (induction b d mid cur cnt rule: hopperLandingLoop.induct)
  case (1 b d mid cur cnt)
  show ?case
  proof (cases "\<not> isHexOccupied b cur \<or> movingInsectOnly b mid cur")
    case True
    with "1.prems" have "cnt \<noteq> 0" "l = cur"
      by (auto simp: hopperLandingLoop.simps [of b d mid cur cnt] split: if_splits)
    with True show ?thesis
      by (intro exI [of _ 0]) (auto simp: ray_0)
  next
    case False
    with "1.prems" have small: "\<not> cnt + 1 > 50"
      and rec: "hopperLandingLoop b d mid (hex_add cur d) (cnt + 1) = Some l"
      by (auto simp: hopperLandingLoop.simps [of b d mid cur cnt] split: if_splits)
    from "1.IH" [OF False small rec] obtain m where m:
      "l = ray (hex_add cur d) d m"
      "\<forall>i<m. isHexOccupied b (ray (hex_add cur d) d i) \<and> \<not> movingInsectOnly b mid (ray (hex_add cur d) d i)"
      "\<not> isHexOccupied b l \<or> movingInsectOnly b mid l"
      by blast
    have "\<forall>i<Suc m. isHexOccupied b (ray cur d i) \<and> \<not> movingInsectOnly b mid (ray cur d i)"
    proof (intro allI impI)
      fix i assume "i < Suc m"
      show "isHexOccupied b (ray cur d i) \<and> \<not> movingInsectOnly b mid (ray cur d i)"
      proof (cases i)
        case 0 with False show ?thesis by (simp add: ray_0)
      next
        case (Suc j)
        with \<open>i < Suc m\<close> m(2) show ?thesis by (simp add: ray_Suc)
      qed
    qed
    with m show ?thesis
      by (intro exI [of _ "Suc m"]) (simp add: ray_Suc)
  qed
qed

lemma hopperPathLoop_ray:
  "\<exists>p'. hopperPathLoop (ray cur d m) d cur p = Some p'"
proof (induction m arbitrary: cur p)
  case 0
  show ?case by (subst hopperPathLoop.simps) (simp add: ray_0)
next
  case (Suc m)
  from Suc [of "hex_add cur d" "p @ [cur]"] show ?case
    by (subst hopperPathLoop.simps) (simp add: ray_Suc)
qed

lemma findHopperLanding_ray:
  assumes "findHopperLanding b fromHex d mid = Some l"
  shows "\<exists>n\<ge>1. l = ray fromHex d (Suc n)
      \<and> (\<forall>i. 1 \<le> i \<and> i \<le> n \<longrightarrow> isHexOccupied b (ray fromHex d i) \<and> \<not> movingInsectOnly b mid (ray fromHex d i))
      \<and> (\<not> isHexOccupied b l \<or> movingInsectOnly b mid l)"
proof -
  from hopperLandingLoop_inv [OF assms [unfolded findHopperLanding_def]]
  obtain m where m: "l = ray (hex_add fromHex d) d m" "1 \<le> m"
    "\<forall>i<m. isHexOccupied b (ray (hex_add fromHex d) d i) \<and> \<not> movingInsectOnly b mid (ray (hex_add fromHex d) d i)"
    "\<not> isHexOccupied b l \<or> movingInsectOnly b mid l"
    by auto
  have "\<forall>i. 1 \<le> i \<and> i \<le> m \<longrightarrow> isHexOccupied b (ray fromHex d i) \<and> \<not> movingInsectOnly b mid (ray fromHex d i)"
  proof (intro allI impI)
    fix i assume "1 \<le> i \<and> i \<le> m"
    then obtain j where "i = Suc j" "j < m" by (cases i) auto
    with m(3) show "isHexOccupied b (ray fromHex d i) \<and> \<not> movingInsectOnly b mid (ray fromHex d i)"
      by (simp add: ray_Suc)
  qed
  with m show ?thesis
    by (intro exI [of _ m]) (simp add: ray_Suc)
qed

lemma buildHopperJumpPath_returns:
  assumes "findHopperLanding b fromHex d mid = Some toHex"
  shows "\<exists>p. buildHopperJumpPath fromHex toHex d = Some p"
proof -
  from findHopperLanding_ray [OF assms] obtain n where "toHex = ray fromHex d (Suc n)" by blast
  then have "toHex = ray (hex_add fromHex d) d n" by (simp add: ray_Suc)
  then show ?thesis
    unfolding buildHopperJumpPath_def using hopperPathLoop_ray by blast
qed

lemma hopperDirections_success:
  "success (hopperDirections b fromHex toHex mid ds) \<Longrightarrow>
   \<exists>d \<in> set ds. findHopperLanding b fromHex d mid = Some toHex"
  by (induction ds) (auto simp: path_blocked_def split: if_splits)

lemma ray_neq_origin:
  assumes "d \<in> set directions" and "1 \<le> n"
  shows "ray h d n \<noteq> h"
  using assms by (cases h) (auto simp: directions_def ray_def)

lemmas board_eval =
  getInsectStack_def isHexOccupied_def movingInsectOnly_def occupiedByOther_def
  getNeighbors_def directions_def hex_add_def

text \<open>
  C9. When \<open>findHopperPath\<close> succeeds, the target lies on the line of one of the
  six directions, at least one hex was jumped (the neighbour of the origin in that
  direction is occupied), every hex between origin and target is occupied by more than
  the moving piece alone, and the target is the first hex of the line that is
  unoccupied or holds only the moving piece. In a call from the game the moving piece
  stands on the origin, so no other hex holds it alone: then the target is unoccupied.
  The loop that builds the path returns.
\<close>

theorem findHopperPath_success:
  assumes "success (findHopperPath b fromHex toHex movingInsectId)"
  shows "\<exists>d \<in> set directions. \<exists>n\<ge>1.
           toHex = ray fromHex d (Suc n)
         \<and> isHexOccupied b (hex_add fromHex d)
         \<and> (\<forall>i. 1 \<le> i \<and> i \<le> n \<longrightarrow>
                isHexOccupied b (ray fromHex d i)
              \<and> \<not> movingInsectOnly b movingInsectId (ray fromHex d i))
         \<and> (\<not> isHexOccupied b toHex \<or> movingInsectOnly b movingInsectId toHex)
         \<and> ((\<forall>k. movingInsectOnly b movingInsectId k \<longrightarrow> k = fromHex)
              \<longrightarrow> \<not> isHexOccupied b toHex)
         \<and> (\<exists>p. buildHopperJumpPath fromHex toHex d = Some p)"
proof -
  from assms obtain d where d: "d \<in> set directions"
    and land: "findHopperLanding b fromHex d movingInsectId = Some toHex"
    unfolding findHopperPath_def by (blast dest: hopperDirections_success)
  from findHopperLanding_ray [OF land] obtain n where n: "1 \<le> n"
    "toHex = ray fromHex d (Suc n)"
    "\<forall>i. 1 \<le> i \<and> i \<le> n \<longrightarrow>
        isHexOccupied b (ray fromHex d i) \<and> \<not> movingInsectOnly b movingInsectId (ray fromHex d i)"
    "\<not> isHexOccupied b toHex \<or> movingInsectOnly b movingInsectId toHex"
    by blast
  from d n(2) have "toHex \<noteq> fromHex"
    by (simp add: ray_neq_origin)
  with n(4) have free: "(\<forall>k. movingInsectOnly b movingInsectId k \<longrightarrow> k = fromHex)
                          \<longrightarrow> \<not> isHexOccupied b toHex" by blast
  from n(1,3) have "isHexOccupied b (ray fromHex d 1)" by simp
  then have first: "isHexOccupied b (hex_add fromHex d)"
    by (simp add: ray_def hex_add_def)
  from d n free first buildHopperJumpPath_returns [OF land] show ?thesis
    by blast
qed

theorem findHopperPath_success_witness:
  "\<exists>d \<in> set directions. \<exists>n\<ge>1.
           Hex 3 0 = ray (Hex 0 0) d (Suc n)
         \<and> isHexOccupied hopper_board (hex_add (Hex 0 0) d)
         \<and> \<not> isHexOccupied hopper_board (Hex 3 0)
         \<and> (\<exists>p. buildHopperJumpPath (Hex 0 0) (Hex 3 0) d = Some p)"
proof -
  have s: "success (findHopperPath hopper_board (Hex 0 0) (Hex 3 0) (id h1))"
    by (simp add: findHopperPath_def findHopperLanding_def hopperLandingLoop.simps
        board_eval hopper_board_def path_found_def h1_def example_pieces)
  have only: "\<forall>k. movingInsectOnly hopper_board (id h1) k \<longrightarrow> k = Hex 0 0"
    by (simp add: board_eval hopper_board_def h1_def example_pieces)
  from findHopperPath_success [OF s] only show ?thesis
    by blast
qed

section \<open>Queen and beetle\<close>

text \<open>\<open>findQueenPath\<close>: one walking step.\<close>

definition findQueenPath :: "board \<Rightarrow> hex \<Rightarrow> hex \<Rightarrow> insect_id \<Rightarrow> path_result" where
  "findQueenPath b fromHex toHex movingInsectId =
     (if distance fromHex toHex \<noteq> 1 then path_blocked [fromHex] (Some fromHex)
      else (let walkingNeighbors = getWalkingNeighbors b fromHex movingInsectId;
                canReach = list_ex (\<lambda>neighbor. neighbor = toHex) walkingNeighbors
            in if canReach then path_found [fromHex, toHex]
               else path_blocked [fromHex] (Some fromHex)))"

definition canBeetleMoveOnHive :: "board \<Rightarrow> hex \<Rightarrow> hex \<Rightarrow> insect_id \<Rightarrow> bool" where
  "canBeetleMoveOnHive b fromHex toHex movingInsectId =
     (let isToOccupied = occupiedByOther b movingInsectId toHex
      in if isToOccupied then True
         else if list_ex (occupiedByOther b movingInsectId) (commonNeighbors fromHex toHex)
              then True
         else touchesHive b toHex movingInsectId (Some fromHex))"

definition getBeetleNeighbors :: "board \<Rightarrow> hex \<Rightarrow> insect_id \<Rightarrow> hex list" where
  "getBeetleNeighbors b fromHex movingInsectId =
     (let fromStack = getInsectStack b fromHex;
          isOnTop = (1 < length fromStack)
      in filter
           (\<lambda>neighbor.
              let isNeighborOccupied = occupiedByOther b movingInsectId neighbor
              in if isOnTop then canBeetleMoveOnHive b fromHex neighbor movingInsectId
                 else if isNeighborOccupied then True
                 else \<not> isGate b fromHex neighbor movingInsectId
                      \<and> touchesHive b neighbor movingInsectId (Some fromHex))
           (getNeighbors fromHex))"

definition findBeetlePath :: "board \<Rightarrow> hex \<Rightarrow> hex \<Rightarrow> insect_id \<Rightarrow> path_result" where
  "findBeetlePath b fromHex toHex movingInsectId =
     (if distance fromHex toHex \<noteq> 1 then path_blocked [fromHex] (Some fromHex)
      else (let validNeighbors = getBeetleNeighbors b fromHex movingInsectId;
                canReach = list_ex (\<lambda>neighbor. neighbor = toHex) validNeighbors
            in if canReach then path_found [fromHex, toHex]
               else path_blocked [fromHex] (Some fromHex)))"

subsection \<open>Facts about the one-step movers\<close>

lemma hexdist_arith:
  fixes x y :: int
  shows "((\<bar>x\<bar> + \<bar>y\<bar> + \<bar>x + y\<bar>) div 2 = 1) =
     ((x = 1 \<and> y = 0) \<or> (x = 1 \<and> y = -1) \<or> (x = 0 \<and> y = -1) \<or>
      (x = -1 \<and> y = 0) \<or> (x = -1 \<and> y = 1) \<or> (x = 0 \<and> y = 1))"
  by presburger

lemma diff_eq_swap: "((x::int) - y = c) = (y = x - c)"
  by auto

lemma distance_one: "(distance a b = 1) = (b \<in> set (getNeighbors a))"
proof -
  obtain aq ar bq br where ab: "a = Hex aq ar" "b = Hex bq br"
    by (cases a; cases b) blast
  have "\<bar>(aq + ar) - (bq + br)\<bar> = \<bar>(aq - bq) + (ar - br)\<bar>"
    by (simp add: algebra_simps)
  then have "(distance a b = 1) =
      ((\<bar>aq - bq\<bar> + \<bar>ar - br\<bar> + \<bar>(aq - bq) + (ar - br)\<bar>) div 2 = 1)"
    by (simp add: distance_def ab)
  also have "\<dots> = (b \<in> set (getNeighbors a))"
    unfolding hexdist_arith diff_eq_swap
    by (simp add: ab getNeighbors_def directions_def) blast
  finally show ?thesis .
qed

lemma success_simps [simp]:
  "success (path_found p)" "\<not> success (path_blocked p h)"
  by (simp_all add: path_found_def path_blocked_def)

lemma common_occupied_touches:
  assumes "c \<in> set (commonNeighbors fromHex toHex)" and "occupiedByOther b mid c"
    and "toHex \<in> set (getNeighbors fromHex)"
  shows "touchesHive b toHex mid (Some fromHex)"
proof -
  from assms(1) have c: "c \<in> set (getNeighbors toHex)" "c \<in> set (getNeighbors fromHex)"
    by (auto simp: commonNeighbors_def list_ex_iff)
  then have "c \<noteq> fromHex"
    by (cases fromHex) (auto simp: getNeighbors_def directions_def)
  moreover from assms(2) have "isHexOccupied b c"
    by (auto simp: occupiedByOther_def isHexOccupied_def getInsectStack_def split: option.splits)
  ultimately show ?thesis
    using c(1) assms(2) unfolding touchesHive_def list_ex_iff by auto
qed

text \<open>
  C7, as the code has it. For a beetle on a stack of height above one and an adjacent
  destination, \<open>findBeetlePath\<close> succeeds exactly when the destination is occupied
  (by more than the moving beetle alone), or a common neighbour of origin and
  destination is so occupied, or the destination has such an occupied neighbour other
  than the origin.
\<close>

theorem findBeetlePath_on_top:
  assumes "1 < length (getInsectStack b fromHex)"
    and "toHex \<in> set (getNeighbors fromHex)"
  shows "success (findBeetlePath b fromHex toHex movingInsectId) =
           (occupiedByOther b movingInsectId toHex
            \<or> (\<exists>c \<in> set (commonNeighbors fromHex toHex). occupiedByOther b movingInsectId c)
            \<or> touchesHive b toHex movingInsectId (Some fromHex))"
  using assms
  by (simp add: findBeetlePath_def distance_one getBeetleNeighbors_def Let_def list_ex_iff
      canBeetleMoveOnHive_def)

lemmas beetle_eval =
  findBeetlePath_def getBeetleNeighbors_def canBeetleMoveOnHive_def distance_def
  commonNeighbors_def touchesHive_def isGate_def board_eval

theorem findBeetlePath_on_top_witness:
  "success (findBeetlePath covered_board (Hex 0 0) (Hex 1 0) (id b2))
   \<and> success (findBeetlePath covered_board (Hex 0 0) (Hex 0 1) (id b2))
   \<and> \<not> success (findBeetlePath covered_board (Hex 0 0) (Hex (-1) 0) (id b2))"
proof -
  have top: "1 < length (getInsectStack covered_board (Hex 0 0))"
    by (simp add: board_eval covered_board_def)
  have n1: "Hex 1 0 \<in> set (getNeighbors (Hex 0 0))"
    and n2: "Hex 0 1 \<in> set (getNeighbors (Hex 0 0))"
    and n3: "Hex (-1) 0 \<in> set (getNeighbors (Hex 0 0))"
    by (simp_all add: getNeighbors_def directions_def)
  have occ: "occupiedByOther covered_board (id b2) (Hex 1 0)"
    by (simp add: board_eval covered_board_def example_pieces)
  have com: "\<exists>c \<in> set (commonNeighbors (Hex 0 0) (Hex 0 1)). occupiedByOther covered_board (id b2) c"
    by (simp add: commonNeighbors_def board_eval covered_board_def example_pieces)
  have no: "\<not> (occupiedByOther covered_board (id b2) (Hex (-1) 0)
            \<or> (\<exists>c \<in> set (commonNeighbors (Hex 0 0) (Hex (-1) 0)). occupiedByOther covered_board (id b2) c)
            \<or> touchesHive covered_board (Hex (-1) 0) (id b2) (Some (Hex 0 0)))"
    by (simp add: commonNeighbors_def touchesHive_def board_eval covered_board_def example_pieces)
  from findBeetlePath_on_top [OF top n1, of "id b2"] findBeetlePath_on_top [OF top n2, of "id b2"]
       findBeetlePath_on_top [OF top n3, of "id b2"] occ com no
  show ?thesis by blast
qed

text \<open>
  The claim's equivalence fails in both branches the code adds: a climb onto an
  occupied hex is accepted with both common neighbours empty, and so is a step down to
  an empty hex that touches the hive only at a hex that is not a common neighbour.
\<close>

theorem findBeetlePath_common_neighbor_counterexample:
  "1 < length (getInsectStack covered_board (Hex 0 0))
   \<and> success (findBeetlePath covered_board (Hex 0 0) (Hex 1 0) (id b2))
   \<and> \<not> list_ex (occupiedByOther covered_board (id b2)) (commonNeighbors (Hex 0 0) (Hex 1 0))
   \<and> 1 < length (getInsectStack ring_board (Hex 0 0))
   \<and> \<not> isHexOccupied ring_board (Hex 1 0)
   \<and> success (findBeetlePath ring_board (Hex 0 0) (Hex 1 0) (id b2))
   \<and> \<not> list_ex (occupiedByOther ring_board (id b2)) (commonNeighbors (Hex 0 0) (Hex 1 0))"
  by (simp add: beetle_eval covered_board_def ring_board_def example_pieces)

section \<open>Ant\<close>

text \<open>
  The inner \<open>for\<close> loop of the breadth-first searches: every neighbour not yet in
  \<open>visited\<close> is added to it and pushed on the queue with its path.
\<close>

fun enqueueNeighbors ::
  "hex list \<Rightarrow> hex list \<Rightarrow> (hex \<times> hex list) list \<times> hex list
     \<Rightarrow> (hex \<times> hex list) list \<times> hex list" where
  "enqueueNeighbors currentPath [] (queue, visited) = (queue, visited)"
| "enqueueNeighbors currentPath (neighbor # neighbors) (queue, visited) =
     (if neighbor \<notin> set visited
      then enqueueNeighbors currentPath neighbors
             (queue @ [(neighbor, currentPath @ [neighbor])], visited @ [neighbor])
      else enqueueNeighbors currentPath neighbors (queue, visited))"

text \<open>The hexes next to a key of the board: a walking step can only land there.\<close>

definition hiveBorder :: "board \<Rightarrow> hex set" where
  "hiveBorder b = set (concat (map getNeighbors (board_keys b)))"

lemma distance_sym: "distance a b = distance b a"
  by (simp add: distance_def abs_minus_commute)

lemma neighbor_sym: "m \<in> set (getNeighbors n) \<Longrightarrow> n \<in> set (getNeighbors m)"
  using distance_one [of n m] distance_one [of m n] distance_sym [of m n] by simp

lemma isHexOccupied_key: "isHexOccupied b k \<Longrightarrow> k \<in> set (board_keys b)"
  by (auto simp: isHexOccupied_def board_keys_def split: option.splits
      dest: map_of_SomeD intro: rev_image_eqI)

lemma touchesHive_border: "touchesHive b n mid x \<Longrightarrow> n \<in> hiveBorder b"
  unfolding touchesHive_def list_ex_iff hiveBorder_def
  by (auto dest: isHexOccupied_key neighbor_sym)

lemma walking_border: "set (getWalkingNeighbors b h mid) \<subseteq> hiveBorder b"
  by (auto simp: getWalkingNeighbors_def dest: touchesHive_border)

definition searchMeasure :: "board \<Rightarrow> (hex \<times> hex list) list \<Rightarrow> hex list \<Rightarrow> nat" where
  "searchMeasure b queue visited = 2 * card (hiveBorder b - set visited) + length queue"

lemma enqueueNeighbors_measure:
  "set ns \<subseteq> hiveBorder b \<Longrightarrow> enqueueNeighbors p ns (queue, visited) = (queue', visited') \<Longrightarrow>
   searchMeasure b queue' visited' \<le> searchMeasure b queue visited"
proof (induction ns arbitrary: queue visited)
  case Nil
  then show ?case by simp
next
  case (Cons n ns)
  show ?case
  proof (cases "n \<in> set visited")
    case True
    with Cons show ?thesis by simp
  next
    case False
    with Cons.prems have rec:
      "enqueueNeighbors p ns (queue @ [(n, p @ [n])], visited @ [n]) = (queue', visited')"
      by simp
    from Cons.prems have "set ns \<subseteq> hiveBorder b" by simp
    from Cons.IH [OF this rec]
    have "searchMeasure b queue' visited'
            \<le> searchMeasure b (queue @ [(n, p @ [n])]) (visited @ [n])" .
    also have "\<dots> \<le> searchMeasure b queue visited"
    proof -
      have fin: "finite (hiveBorder b - set visited)"
        by (simp add: hiveBorder_def)
      from False Cons.prems have mem: "n \<in> hiveBorder b - set visited" by simp
      have "hiveBorder b - set (visited @ [n]) = (hiveBorder b - set visited) - {n}"
        by auto
      with fin mem have "card (hiveBorder b - set (visited @ [n]))
                           = card (hiveBorder b - set visited) - 1"
        by simp
      moreover from fin mem have "0 < card (hiveBorder b - set visited)"
        by (auto simp: card_gt_0_iff)
      ultimately show ?thesis
        by (simp add: searchMeasure_def)
    qed
    finally show ?thesis .
  qed
qed

text \<open>
  \<open>findAntPath\<close>: the \<open>while (queue.length > 0)\<close> loop. \<open>None\<close> is the exit of the
  loop with the queue empty, \<open>Some\<close> the \<open>return\<close> inside it.
\<close>

function antLoop ::
  "board \<Rightarrow> hex \<Rightarrow> insect_id \<Rightarrow> (hex \<times> hex list) list \<Rightarrow> hex list \<Rightarrow> hex list option" where
  "antLoop b toHex movingInsectId queue visited =
     (case queue of
        [] \<Rightarrow> None
      | (currentHex, currentPath) # rest \<Rightarrow>
          if currentHex = toHex then Some currentPath
          else (case enqueueNeighbors currentPath
                       (getWalkingNeighbors b currentHex movingInsectId) (rest, visited) of
                  (queue', visited') \<Rightarrow> antLoop b toHex movingInsectId queue' visited'))"
  by pat_completeness auto
termination
proof (relation "measure (\<lambda>(b, t, m, queue, visited). searchMeasure b queue visited)",
    goal_cases)
  case 1
  show ?case by simp
next
  case (2 b toHex movingInsectId queue visited a rest currentHex currentPath queue' visited')
  from 2(4) have "enqueueNeighbors currentPath
                  (getWalkingNeighbors b currentHex movingInsectId) (rest, visited)
                = (queue', visited')" by simp
  from enqueueNeighbors_measure [OF walking_border this]
  have "searchMeasure b queue' visited' \<le> searchMeasure b rest visited" .
  also from 2(1) have "\<dots> < searchMeasure b queue visited"
    by (simp add: searchMeasure_def)
  finally show ?case
    using 2(1) by simp
qed

declare antLoop.simps [simp del]

text \<open>
  \<open>findLongestPathToward\<close>: the same search run to the end, keeping the path whose
  end is nearest to the target (the longer path on a tie). \<open>blockedAt\<close> reads the last
  element of that path, which is \<open>undefined\<close> for an empty array.
\<close>

definition lastHex :: "hex list \<Rightarrow> hex option" where
  "lastHex p = (if p = [] then None else Some (last p))"

definition closerPath :: "hex \<Rightarrow> hex \<Rightarrow> hex list \<Rightarrow> hex list \<Rightarrow> int \<Rightarrow> bool" where
  "closerPath toHex currentHex currentPath bestPath bestDistance =
     (let distanceToTarget = distance currentHex toHex
      in distanceToTarget < bestDistance
         \<or> (distanceToTarget = bestDistance \<and> length bestPath < length currentPath))"

function longestLoop ::
  "board \<Rightarrow> hex \<Rightarrow> insect_id \<Rightarrow> (hex \<times> hex list) list \<Rightarrow> hex list \<Rightarrow> hex list \<Rightarrow> int
     \<Rightarrow> hex list" where
  "longestLoop b toHex movingInsectId queue visited bestPath bestDistance =
     (case queue of
        [] \<Rightarrow> bestPath
      | (currentHex, currentPath) # rest \<Rightarrow>
          (case enqueueNeighbors currentPath
                  (getWalkingNeighbors b currentHex movingInsectId) (rest, visited) of
             (queue', visited') \<Rightarrow>
               if closerPath toHex currentHex currentPath bestPath bestDistance
               then longestLoop b toHex movingInsectId queue' visited'
                      currentPath (distance currentHex toHex)
               else longestLoop b toHex movingInsectId queue' visited' bestPath bestDistance))"
  by pat_completeness auto
termination
proof (relation "measure (\<lambda>(b, t, m, queue, visited, bp, bd). searchMeasure b queue visited)",
    goal_cases)
  case 1
  show ?case by simp
next
  case (2 b toHex movingInsectId queue visited bestPath bestDistance a rest currentHex
      currentPath queue' visited')
  from 2 have "enqueueNeighbors currentPath
                  (getWalkingNeighbors b currentHex movingInsectId) (rest, visited)
                = (queue', visited')" by simp
  from enqueueNeighbors_measure [OF walking_border this]
  have "searchMeasure b queue' visited' \<le> searchMeasure b rest visited" .
  also from 2(1) have "\<dots> < searchMeasure b queue visited"
    by (simp add: searchMeasure_def)
  finally show ?case
    using 2(1) by simp
next
  case (3 b toHex movingInsectId queue visited bestPath bestDistance a rest currentHex
      currentPath queue' visited')
  from 3 have "enqueueNeighbors currentPath
                  (getWalkingNeighbors b currentHex movingInsectId) (rest, visited)
                = (queue', visited')" by simp
  from enqueueNeighbors_measure [OF walking_border this]
  have "searchMeasure b queue' visited' \<le> searchMeasure b rest visited" .
  also from 3(1) have "\<dots> < searchMeasure b queue visited"
    by (simp add: searchMeasure_def)
  finally show ?case
    using 3(1) by simp
qed

declare longestLoop.simps [simp del]

definition findLongestPathToward :: "board \<Rightarrow> hex \<Rightarrow> hex \<Rightarrow> insect_id \<Rightarrow> hex list" where
  "findLongestPathToward b fromHex toHex movingInsectId =
     longestLoop b toHex movingInsectId [(fromHex, [fromHex])] [fromHex]
       [fromHex] (distance fromHex toHex)"

definition findAntPath :: "board \<Rightarrow> hex \<Rightarrow> hex \<Rightarrow> insect_id \<Rightarrow> path_result" where
  "findAntPath b fromHex toHex movingInsectId =
     (case antLoop b toHex movingInsectId [(fromHex, [fromHex])] [fromHex] of
        Some currentPath \<Rightarrow> path_found currentPath
      | None \<Rightarrow>
          (let longestPath = findLongestPathToward b fromHex toHex movingInsectId
           in path_blocked longestPath (lastHex longestPath)))"

subsection \<open>Facts about the ant\<close>

text \<open>
  A legal walking step, in the words of the specification: onto an adjacent empty
  hex, not through a gate, landing in contact with the hive.
\<close>

definition walkStep :: "board \<Rightarrow> insect_id \<Rightarrow> hex \<Rightarrow> hex \<Rightarrow> bool" where
  "walkStep b movingInsectId x y =
     (y \<in> set (getNeighbors x) \<and> \<not> isHexOccupied b y
      \<and> \<not> isGate b x y movingInsectId \<and> touchesHive b y movingInsectId (Some x))"

fun walkPath :: "board \<Rightarrow> insect_id \<Rightarrow> hex list \<Rightarrow> bool" where
  "walkPath b movingInsectId (x # y # p) =
     (walkStep b movingInsectId x y \<and> walkPath b movingInsectId (y # p))"
| "walkPath b movingInsectId p = True"

lemma walkStep_iff: "walkStep b mid x y = (y \<in> set (getWalkingNeighbors b x mid))"
  by (auto simp: walkStep_def getWalkingNeighbors_def)

lemma walkPath_snoc:
  "p \<noteq> [] \<Longrightarrow> walkPath b mid (p @ [n]) = (walkPath b mid p \<and> walkStep b mid (last p) n)"
  by (induction b mid p rule: walkPath.induct) auto

lemma walkPath_nth:
  "walkPath b mid p = (\<forall>i. Suc i < length p \<longrightarrow> walkStep b mid (p ! i) (p ! Suc i))"
proof (induction b mid p rule: walkPath.induct)
  case (1 b mid x y p)
  show ?case
  proof
    assume l: "walkPath b mid (x # y # p)"
    show "\<forall>i. Suc i < length (x # y # p) \<longrightarrow> walkStep b mid ((x # y # p) ! i) ((x # y # p) ! Suc i)"
    proof (intro allI impI)
      fix i assume "Suc i < length (x # y # p)"
      with l 1 show "walkStep b mid ((x # y # p) ! i) ((x # y # p) ! Suc i)"
        by (cases i) auto
    qed
  next
    assume r: "\<forall>i. Suc i < length (x # y # p) \<longrightarrow> walkStep b mid ((x # y # p) ! i) ((x # y # p) ! Suc i)"
    from r [rule_format, of 0] have "walkStep b mid x y" by simp
    moreover have "\<forall>i. Suc i < length (y # p) \<longrightarrow> walkStep b mid ((y # p) ! i) ((y # p) ! Suc i)"
    proof (intro allI impI)
      fix i assume "Suc i < length (y # p)"
      with r [rule_format, of "Suc i"] show "walkStep b mid ((y # p) ! i) ((y # p) ! Suc i)"
        by simp
    qed
    ultimately show "walkPath b mid (x # y # p)"
      using 1 by simp
  qed
qed simp_all

lemma enqueueNeighbors_visited:
  "enqueueNeighbors p ns (queue, visited) = (queue', visited') \<Longrightarrow>
   set visited' = set visited \<union> set ns"
  by (induction ns arbitrary: queue visited) (auto split: if_splits)

lemma enqueueNeighbors_queue:
  "enqueueNeighbors p ns (queue, visited) = (queue', visited') \<Longrightarrow>
   \<exists>new. queue' = queue @ map (\<lambda>n. (n, p @ [n])) new \<and> set new = set ns - set visited"
proof (induction ns arbitrary: queue visited)
  case Nil
  then show ?case by simp
next
  case (Cons n ns)
  show ?case
  proof (cases "n \<in> set visited")
    case True
    with Cons.prems have "enqueueNeighbors p ns (queue, visited) = (queue', visited')" by simp
    from Cons.IH [OF this] True show ?thesis by auto
  next
    case False
    with Cons.prems have
      "enqueueNeighbors p ns (queue @ [(n, p @ [n])], visited @ [n]) = (queue', visited')"
      by simp
    from Cons.IH [OF this] obtain new where
      new: "queue' = (queue @ [(n, p @ [n])]) @ map (\<lambda>n. (n, p @ [n])) new"
      "set new = set ns - set (visited @ [n])" by blast
    from new(1) have "queue' = queue @ map (\<lambda>n. (n, p @ [n])) (n # new)" by simp
    moreover from new(2) False have "set (n # new) = set (n # ns) - set visited" by auto
    ultimately show ?thesis by blast
  qed
qed

lemma antLoop_Nil [simp]: "antLoop b toHex mid [] visited = None"
  by (subst antLoop.simps) simp

lemma antLoop_Cons [simp]:
  "antLoop b toHex mid ((c, cp) # rest) visited =
     (if c = toHex then Some cp
      else (case enqueueNeighbors cp (getWalkingNeighbors b c mid) (rest, visited) of
              (queue', visited') \<Rightarrow> antLoop b toHex mid queue' visited'))"
  by (subst antLoop.simps) simp

text \<open>Soundness: what the loop returns is a walking path from the origin.\<close>

definition pathTo :: "board \<Rightarrow> insect_id \<Rightarrow> hex \<Rightarrow> hex \<Rightarrow> hex list \<Rightarrow> bool" where
  "pathTo b mid fromHex h p = (p \<noteq> [] \<and> hd p = fromHex \<and> last p = h \<and> walkPath b mid p)"

lemma antLoop_sound:
  "antLoop b toHex mid queue visited = Some r \<Longrightarrow>
   (\<forall>(h, p) \<in> set queue. pathTo b mid fromHex h p) \<Longrightarrow> pathTo b mid fromHex toHex r"
proof (induction b toHex mid queue visited rule: antLoop.induct)
  case (1 b toHex mid queue visited)
  show ?case
  proof (cases queue)
    case Nil
    with "1.prems"(1) show ?thesis
      by simp
  next
    case (Cons a rest)
    obtain c cp where a: "a = (c, cp)" by (cases a)
    from "1.prems"(2) Cons a have pc: "pathTo b mid fromHex c cp" by simp
    show ?thesis
    proof (cases "c = toHex")
      case True
      with "1.prems"(1) Cons a have "r = cp"
        by simp
      with pc True show ?thesis by simp
    next
      case False
      obtain queue' visited' where
        e: "enqueueNeighbors cp (getWalkingNeighbors b c mid) (rest, visited) = (queue', visited')"
        by (cases "enqueueNeighbors cp (getWalkingNeighbors b c mid) (rest, visited)")
      with "1.prems"(1) Cons a False have res: "antLoop b toHex mid queue' visited' = Some r"
        by simp
      from enqueueNeighbors_queue [OF e] obtain new where
        new: "queue' = rest @ map (\<lambda>n. (n, cp @ [n])) new"
        "set new = set (getWalkingNeighbors b c mid) - set visited" by blast
      have "\<forall>(h, p) \<in> set queue'. pathTo b mid fromHex h p"
      proof (intro ballI, clarify)
        fix h p assume "(h, p) \<in> set queue'"
        with new(1) consider "(h, p) \<in> set rest" | "h \<in> set new" "p = cp @ [h]"
          by auto
        then show "pathTo b mid fromHex h p"
        proof cases
          case 1
          with "1.prems"(2) Cons show ?thesis by auto
        next
          case 2
          with new(2) have "walkStep b mid c h" by (simp add: walkStep_iff)
          with pc 2 show ?thesis
            by (simp add: pathTo_def walkPath_snoc)
        qed
      qed
      from "1.IH" [OF Cons a [symmetric] False e [symmetric] res this]
      show ?thesis .
    qed
  qed
qed

text \<open>
  Completeness: when the loop ends with the queue empty, the visited hexes are
  closed under walking steps and none of them is the target.
\<close>

inductive reach :: "board \<Rightarrow> insect_id \<Rightarrow> hex \<Rightarrow> hex \<Rightarrow> bool" for b mid where
  reach_refl: "reach b mid x x"
| reach_step: "reach b mid x y \<Longrightarrow> walkStep b mid y z \<Longrightarrow> reach b mid x z"

lemma antLoop_complete:
  "antLoop b toHex mid queue visited = None \<Longrightarrow>
   fst ` set queue \<subseteq> set visited \<Longrightarrow>
   (\<forall>v \<in> set visited - fst ` set queue.
       v \<noteq> toHex \<and> (\<forall>w. walkStep b mid v w \<longrightarrow> w \<in> set visited)) \<Longrightarrow>
   v \<in> set visited \<Longrightarrow> reach b mid v w \<Longrightarrow> w \<noteq> toHex"
proof (induction b toHex mid queue visited rule: antLoop.induct)
  case (1 b toHex mid queue visited)
  show ?case
  proof (cases queue)
    case Nil
    with "1.prems"(3) have closed:
      "\<forall>v \<in> set visited. v \<noteq> toHex \<and> (\<forall>w. walkStep b mid v w \<longrightarrow> w \<in> set visited)"
      by simp
    from "1.prems"(5) "1.prems"(4) have "w \<in> set visited"
      by (induction rule: reach.induct) (use closed in auto)
    with closed show ?thesis by blast
  next
    case (Cons a rest)
    obtain c cp where a: "a = (c, cp)" by (cases a)
    from "1.prems"(1) Cons a have False: "c \<noteq> toHex"
      by auto
    obtain queue' visited' where
      e: "enqueueNeighbors cp (getWalkingNeighbors b c mid) (rest, visited) = (queue', visited')"
      by (cases "enqueueNeighbors cp (getWalkingNeighbors b c mid) (rest, visited)")
    with "1.prems"(1) Cons a False have res: "antLoop b toHex mid queue' visited' = None"
      by simp
    from enqueueNeighbors_queue [OF e] obtain new where
      new: "queue' = rest @ map (\<lambda>n. (n, cp @ [n])) new"
      "set new = set (getWalkingNeighbors b c mid) - set visited" by blast
    from enqueueNeighbors_visited [OF e]
    have vis: "set visited' = set visited \<union> set (getWalkingNeighbors b c mid)" .
    from new(1) have fq: "fst ` set queue' = fst ` set rest \<union> set new"
      by (auto simp: image_Un image_image)
    have sub: "fst ` set queue' \<subseteq> set visited'"
      using "1.prems"(2) Cons fq new(2) vis by auto
    have inv: "\<forall>v \<in> set visited' - fst ` set queue'.
       v \<noteq> toHex \<and> (\<forall>w. walkStep b mid v w \<longrightarrow> w \<in> set visited')"
    proof
      fix v assume v: "v \<in> set visited' - fst ` set queue'"
      with vis fq new(2) have vv: "v \<in> set visited" "v \<notin> fst ` set rest" by auto
      show "v \<noteq> toHex \<and> (\<forall>w. walkStep b mid v w \<longrightarrow> w \<in> set visited')"
      proof (cases "v = c")
        case True
        with False vis show ?thesis by (auto simp: walkStep_iff)
      next
        case False
        with vv Cons a have "v \<in> set visited - fst ` set queue" by auto
        with "1.prems"(3) vis show ?thesis by blast
      qed
    qed
    from "1.prems"(4) vis have "v \<in> set visited'" by simp
    from "1.IH" [OF Cons a [symmetric] False e [symmetric] res sub inv this "1.prems"(5)]
    show ?thesis .
  qed
qed

lemma walkPath_reach:
  "walkPath b mid p \<Longrightarrow> p \<noteq> [] \<Longrightarrow> reach b mid (hd p) (last p)"
proof (induction p rule: rev_induct)
  case Nil
  then show ?case by simp
next
  case (snoc n p)
  show ?case
  proof (cases "p = []")
    case True
    then show ?thesis by (simp add: reach_refl)
  next
    case False
    with snoc.prems have "walkPath b mid p" "walkStep b mid (last p) n"
      by (simp_all add: walkPath_snoc)
    with snoc.IH False have "reach b mid (hd p) n"
      by (auto intro: reach_step)
    with False show ?thesis by simp
  qed
qed

lemma findAntPath_success_iff:
  "success (findAntPath b fromHex toHex mid)
     = (antLoop b toHex mid [(fromHex, [fromHex])] [fromHex] \<noteq> None)"
  by (simp add: findAntPath_def Let_def split: option.splits)

text \<open>
  C2. If some path of legal walking steps leads from the origin to the target, then
  \<open>findAntPath\<close> succeeds; and a path returned with success starts at the origin, ends
  at the target, and each of its steps goes to an adjacent empty hex, passes the gate
  test and passes the contact test of \<open>getWalkingNeighbors\<close>.
\<close>

theorem findAntPath_complete_and_sound:
  "(p \<noteq> [] \<and> hd p = fromHex \<and> last p = toHex
      \<and> (\<forall>i. Suc i < length p \<longrightarrow> walkStep b movingInsectId (p ! i) (p ! Suc i))
      \<longrightarrow> success (findAntPath b fromHex toHex movingInsectId))
   \<and> (success (findAntPath b fromHex toHex movingInsectId)
      \<longrightarrow> (let r = path (findAntPath b fromHex toHex movingInsectId)
           in r \<noteq> [] \<and> hd r = fromHex \<and> last r = toHex
              \<and> (\<forall>i. Suc i < length r \<longrightarrow>
                     r ! Suc i \<in> set (getNeighbors (r ! i))
                   \<and> \<not> isHexOccupied b (r ! Suc i)
                   \<and> \<not> isGate b (r ! i) (r ! Suc i) movingInsectId
                   \<and> touchesHive b (r ! Suc i) movingInsectId (Some (r ! i)))))"
proof (intro conjI impI)
  assume p: "p \<noteq> [] \<and> hd p = fromHex \<and> last p = toHex
      \<and> (\<forall>i. Suc i < length p \<longrightarrow> walkStep b movingInsectId (p ! i) (p ! Suc i))"
  then have "walkPath b movingInsectId p" by (simp add: walkPath_nth)
  with p have r: "reach b movingInsectId fromHex toHex"
    using walkPath_reach by blast
  show "success (findAntPath b fromHex toHex movingInsectId)"
  proof (rule ccontr)
    assume "\<not> success (findAntPath b fromHex toHex movingInsectId)"
    then have "antLoop b toHex movingInsectId [(fromHex, [fromHex])] [fromHex] = None"
      by (simp add: findAntPath_success_iff)
    from antLoop_complete [OF this _ _ _ r] show False by simp
  qed
next
  assume "success (findAntPath b fromHex toHex movingInsectId)"
  then obtain r where r: "antLoop b toHex movingInsectId [(fromHex, [fromHex])] [fromHex] = Some r"
    by (auto simp: findAntPath_success_iff)
  then have pr: "path (findAntPath b fromHex toHex movingInsectId) = r"
    by (simp add: findAntPath_def path_found_def)
  from antLoop_sound [OF r, of fromHex] have "pathTo b movingInsectId fromHex toHex r"
    by (simp add: pathTo_def)
  then show "let r = path (findAntPath b fromHex toHex movingInsectId)
           in r \<noteq> [] \<and> hd r = fromHex \<and> last r = toHex
              \<and> (\<forall>i. Suc i < length r \<longrightarrow>
                     r ! Suc i \<in> set (getNeighbors (r ! i))
                   \<and> \<not> isHexOccupied b (r ! Suc i)
                   \<and> \<not> isGate b (r ! i) (r ! Suc i) movingInsectId
                   \<and> touchesHive b (r ! Suc i) movingInsectId (Some (r ! i)))"
    unfolding pr Let_def pathTo_def walkPath_nth walkStep_def by blast
qed

lemmas walk_eval =
  walkStep_def isGate_def touchesHive_def commonNeighbors_def board_eval

theorem findAntPath_complete_and_sound_witness:
  "success (findAntPath ant_board (Hex 0 0) (Hex 2 (-1)) (id a1))
   \<and> last (path (findAntPath ant_board (Hex 0 0) (Hex 2 (-1)) (id a1))) = Hex 2 (-1)"
proof -
  let ?p = "[Hex 0 0, Hex 1 (-1), Hex 2 (-1)]"
  have wp: "walkPath ant_board (id a1) ?p"
    by (simp add: walk_eval ant_board_def example_pieces)
  have steps: "\<forall>i. Suc i < length ?p \<longrightarrow> walkStep ant_board (id a1) (?p ! i) (?p ! Suc i)"
    using wp by (simp only: walkPath_nth)
  have hyp: "?p \<noteq> [] \<and> hd ?p = Hex 0 0 \<and> last ?p = Hex 2 (-1)
      \<and> (\<forall>i. Suc i < length ?p \<longrightarrow> walkStep ant_board (id a1) (?p ! i) (?p ! Suc i))"
    using steps by simp
  note inst = findAntPath_complete_and_sound
    [of ?p "Hex 0 0" "Hex 2 (-1)" ant_board "id a1"]
  from inst hyp have s: "success (findAntPath ant_board (Hex 0 0) (Hex 2 (-1)) (id a1))"
    by blast
  with inst show ?thesis
    by (simp add: Let_def)
qed

section \<open>Spider\<close>

text \<open>
  The spider's searches key \<open>visited\<close> by hex and step number, and skip a neighbour
  already on the current path. \<open>steps\<close> is \<open>currentPath.length - 1\<close>.
\<close>

fun spiderEnqueue ::
  "hex list \<Rightarrow> int \<Rightarrow> hex list \<Rightarrow> (hex \<times> hex list) list \<times> (hex \<times> int) list
     \<Rightarrow> (hex \<times> hex list) list \<times> (hex \<times> int) list" where
  "spiderEnqueue currentPath steps [] (queue, visited) = (queue, visited)"
| "spiderEnqueue currentPath steps (neighbor # neighbors) (queue, visited) =
     (let alreadyInPath = list_ex (\<lambda>h. h = neighbor) currentPath
      in if (neighbor, steps + 1) \<notin> set visited \<and> \<not> alreadyInPath
         then spiderEnqueue currentPath steps neighbors
                (queue @ [(neighbor, currentPath @ [neighbor])], visited @ [(neighbor, steps + 1)])
         else spiderEnqueue currentPath steps neighbors (queue, visited))"

definition stepWeight :: "nat \<Rightarrow> nat" where
  "stepWeight n = (if n = 0 then 1555 else if n = 1 then 259 else if n = 2 then 43
                   else if n = 3 then 7 else 1)"

definition spiderMeasure :: "(hex \<times> hex list) list \<Rightarrow> nat" where
  "spiderMeasure queue = sum_list (map (\<lambda>(h, p). stepWeight (length p)) queue)"

lemma spiderEnqueue_measure:
  "spiderEnqueue cp steps ns (queue, visited) = (queue', visited') \<Longrightarrow>
   spiderMeasure queue' \<le> spiderMeasure queue + length ns * stepWeight (Suc (length cp))"
proof (induction ns arbitrary: queue visited)
  case Nil
  then show ?case by simp
next
  case (Cons n ns)
  show ?case
  proof (cases "(n, steps + 1) \<notin> set visited \<and> \<not> list_ex (\<lambda>h. h = n) cp")
    case True
    with Cons.prems have
      "spiderEnqueue cp steps ns (queue @ [(n, cp @ [n])], visited @ [(n, steps + 1)])
         = (queue', visited')" by simp
    from Cons.IH [OF this] show ?thesis
      by (simp add: spiderMeasure_def)
  next
    case False
    with Cons.prems have "spiderEnqueue cp steps ns (queue, visited) = (queue', visited')"
      by auto
    from Cons.IH [OF this] show ?thesis by simp
  qed
qed

lemma length_getNeighbors [simp]: "length (getNeighbors h) = 6"
  by (simp add: getNeighbors_def directions_def)

lemma length_getWalkingNeighbors: "length (getWalkingNeighbors b h mid) \<le> 6"
  unfolding getWalkingNeighbors_def
  using length_filter_le [of _ "getNeighbors h"] by simp

lemma stepWeight_step: "n < 4 \<Longrightarrow> 6 * stepWeight (Suc n) < stepWeight n"
  by (simp add: stepWeight_def)

lemma stepWeight_pos: "0 < stepWeight n"
  by (simp add: stepWeight_def)

lemma spider_step_decreases:
  assumes "spiderEnqueue cp steps ns (rest, visited) = (queue', visited')"
    and "length ns \<le> 6" and "int (length cp) - 1 < 3"
  shows "spiderMeasure queue' < spiderMeasure ((c, cp) # rest)"
proof -
  from assms(3) have l: "length cp < 4" by simp
  from spiderEnqueue_measure [OF assms(1)]
  have "spiderMeasure queue' \<le> spiderMeasure rest + length ns * stepWeight (Suc (length cp))" .
  also from assms(2) have "\<dots> \<le> spiderMeasure rest + 6 * stepWeight (Suc (length cp))"
    by simp
  also from stepWeight_step [OF l] have "\<dots> < spiderMeasure rest + stepWeight (length cp)"
    by simp
  finally show ?thesis by (simp add: spiderMeasure_def)
qed

function spiderLoop ::
  "board \<Rightarrow> hex \<Rightarrow> insect_id \<Rightarrow> (hex \<times> hex list) list \<Rightarrow> (hex \<times> int) list
     \<Rightarrow> hex list list \<Rightarrow> hex list list" where
  "spiderLoop b toHex movingInsectId queue visited validPaths =
     (case queue of
        [] \<Rightarrow> validPaths
      | (currentHex, currentPath) # rest \<Rightarrow>
          if int (length currentPath) - 1 = 3
          then spiderLoop b toHex movingInsectId rest visited
                 (if currentHex = toHex then validPaths @ [currentPath] else validPaths)
          else if int (length currentPath) - 1 < 3
          then (case spiderEnqueue currentPath (int (length currentPath) - 1)
                       (getWalkingNeighbors b currentHex movingInsectId) (rest, visited) of
                  (queue', visited') \<Rightarrow>
                    spiderLoop b toHex movingInsectId queue' visited' validPaths)
          else spiderLoop b toHex movingInsectId rest visited validPaths)"
  by pat_completeness auto
termination
proof (relation "measure (\<lambda>(b, t, m, queue, visited, vp). spiderMeasure queue)", goal_cases)
  case 1
  show ?case by simp
next
  case (2 b toHex movingInsectId queue visited validPaths a rest currentHex currentPath)
  then show ?case
    by (auto simp: spiderMeasure_def stepWeight_pos)
next
  case (3 b toHex movingInsectId queue visited validPaths a rest currentHex currentPath
      queue' visited')
  from 3 have "spiderEnqueue currentPath (int (length currentPath) - 1)
                 (getWalkingNeighbors b currentHex movingInsectId) (rest, visited)
               = (queue', visited')" by simp
  from spider_step_decreases [OF this length_getWalkingNeighbors, of currentHex] 3
  show ?case by auto
next
  case (4 b toHex movingInsectId queue visited validPaths a rest currentHex currentPath)
  then show ?case
    by (auto simp: spiderMeasure_def stepWeight_pos)
qed

declare spiderLoop.simps [simp del]

function longestSpiderLoop ::
  "board \<Rightarrow> hex \<Rightarrow> insect_id \<Rightarrow> (hex \<times> hex list) list \<Rightarrow> (hex \<times> int) list
     \<Rightarrow> hex list \<Rightarrow> int \<Rightarrow> hex list" where
  "longestSpiderLoop b toHex movingInsectId queue visited bestPath bestDistance =
     (case queue of
        [] \<Rightarrow> bestPath
      | (currentHex, currentPath) # rest \<Rightarrow>
          (case (if int (length currentPath) - 1 < 3
                 then spiderEnqueue currentPath (int (length currentPath) - 1)
                        (getWalkingNeighbors b currentHex movingInsectId) (rest, visited)
                 else (rest, visited)) of
             (queue', visited') \<Rightarrow>
               if closerPath toHex currentHex currentPath bestPath bestDistance
               then longestSpiderLoop b toHex movingInsectId queue' visited'
                      currentPath (distance currentHex toHex)
               else longestSpiderLoop b toHex movingInsectId queue' visited'
                      bestPath bestDistance))"
  by pat_completeness auto
termination
proof (relation "measure (\<lambda>(b, t, m, queue, visited, bp, bd). spiderMeasure queue)",
    goal_cases)
  case 1
  show ?case by simp
next
  case (2 b toHex movingInsectId queue visited bestPath bestDistance a rest currentHex
      currentPath queue' visited')
  show ?case
  proof (cases "int (length currentPath) - 1 < 3")
    case True
    with 2 have "spiderEnqueue currentPath (int (length currentPath) - 1)
                 (getWalkingNeighbors b currentHex movingInsectId) (rest, visited)
               = (queue', visited')" by simp
    from spider_step_decreases [OF this length_getWalkingNeighbors True, of currentHex] 2
    show ?thesis by auto
  next
    case False
    with 2 show ?thesis
      by (auto simp: spiderMeasure_def stepWeight_pos)
  qed
next
  case (3 b toHex movingInsectId queue visited bestPath bestDistance a rest currentHex
      currentPath queue' visited')
  show ?case
  proof (cases "int (length currentPath) - 1 < 3")
    case True
    with 3 have "spiderEnqueue currentPath (int (length currentPath) - 1)
                 (getWalkingNeighbors b currentHex movingInsectId) (rest, visited)
               = (queue', visited')" by simp
    from spider_step_decreases [OF this length_getWalkingNeighbors True, of currentHex] 3
    show ?thesis by auto
  next
    case False
    with 3 show ?thesis
      by (auto simp: spiderMeasure_def stepWeight_pos)
  qed
qed

declare longestSpiderLoop.simps [simp del]

definition findLongestSpiderPathToward :: "board \<Rightarrow> hex \<Rightarrow> hex \<Rightarrow> insect_id \<Rightarrow> hex list" where
  "findLongestSpiderPathToward b fromHex toHex movingInsectId =
     longestSpiderLoop b toHex movingInsectId [(fromHex, [fromHex])] [(fromHex, 0)]
       [fromHex] (distance fromHex toHex)"

definition findSpiderPath :: "board \<Rightarrow> hex \<Rightarrow> hex \<Rightarrow> insect_id \<Rightarrow> path_result" where
  "findSpiderPath b fromHex toHex movingInsectId =
     (case spiderLoop b toHex movingInsectId [(fromHex, [fromHex])] [(fromHex, 0)] [] of
        firstPath # others \<Rightarrow> path_found firstPath
      | [] \<Rightarrow>
          (let partialPath = findLongestSpiderPathToward b fromHex toHex movingInsectId
           in path_blocked partialPath (lastHex partialPath)))"

section \<open>Ladybug\<close>

fun ladybugEnqueue ::
  "hex list \<Rightarrow> nat \<Rightarrow> hex list \<Rightarrow> (hex \<times> hex list \<times> nat) list \<times> (hex \<times> nat) list
     \<Rightarrow> (hex \<times> hex list \<times> nat) list \<times> (hex \<times> nat) list" where
  "ladybugEnqueue currentPath step [] (queue, visited) = (queue, visited)"
| "ladybugEnqueue currentPath step (neighbor # neighbors) (queue, visited) =
     (if (neighbor, step + 1) \<notin> set visited
      then ladybugEnqueue currentPath step neighbors
             (queue @ [(neighbor, currentPath @ [neighbor], step + 1)],
              visited @ [(neighbor, step + 1)])
      else ladybugEnqueue currentPath step neighbors (queue, visited))"

definition getLadybugStepOneNeighbors :: "board \<Rightarrow> hex \<Rightarrow> insect_id \<Rightarrow> hex list" where
  "getLadybugStepOneNeighbors b fromHex movingInsectId =
     filter (occupiedByOther b movingInsectId) (getNeighbors fromHex)"

definition getLadybugStepTwoNeighbors :: "board \<Rightarrow> hex \<Rightarrow> insect_id \<Rightarrow> hex list" where
  "getLadybugStepTwoNeighbors b fromHex movingInsectId =
     filter (occupiedByOther b movingInsectId) (getNeighbors fromHex)"

text \<open>
  The test \<open>isEmpty\<close> of the ladybug's third step and of the throw: no stack, or
  only the moving piece.
\<close>

definition emptyOrMoving :: "board \<Rightarrow> insect_id \<Rightarrow> hex \<Rightarrow> bool" where
  "emptyOrMoving b movingInsectId k =
     (length (getInsectStack b k) = 0 \<or> movingInsectOnly b movingInsectId k)"

definition getLadybugStepThreeNeighbors ::
  "board \<Rightarrow> hex \<Rightarrow> insect_id \<Rightarrow> hex \<Rightarrow> hex list" where
  "getLadybugStepThreeNeighbors b fromHex movingInsectId originalFromHex =
     filter (\<lambda>neighbor. emptyOrMoving b movingInsectId neighbor
                       \<and> touchesHive b neighbor movingInsectId (Some originalFromHex))
       (getNeighbors fromHex)"

definition ladybugNeighbors :: "board \<Rightarrow> hex \<Rightarrow> insect_id \<Rightarrow> hex \<Rightarrow> nat \<Rightarrow> hex list" where
  "ladybugNeighbors b fromHex movingInsectId currentHex step =
     (if step = 0 then getLadybugStepOneNeighbors b currentHex movingInsectId
      else if step = 1 then getLadybugStepTwoNeighbors b currentHex movingInsectId
      else if step = 2 then getLadybugStepThreeNeighbors b currentHex movingInsectId fromHex
      else [])"

definition ladybugMeasure :: "(hex \<times> hex list \<times> nat) list \<Rightarrow> nat" where
  "ladybugMeasure queue = sum_list (map (\<lambda>(h, p, step). stepWeight (Suc step)) queue)"

lemma ladybugEnqueue_measure:
  "ladybugEnqueue cp step ns (queue, visited) = (queue', visited') \<Longrightarrow>
   ladybugMeasure queue' \<le> ladybugMeasure queue + length ns * stepWeight (Suc (Suc step))"
proof (induction ns arbitrary: queue visited)
  case Nil
  then show ?case by simp
next
  case (Cons n ns)
  show ?case
  proof (cases "(n, step + 1) \<notin> set visited")
    case True
    with Cons.prems have
      "ladybugEnqueue cp step ns (queue @ [(n, cp @ [n], step + 1)], visited @ [(n, step + 1)])
         = (queue', visited')" by simp
    from Cons.IH [OF this] show ?thesis
      by (simp add: ladybugMeasure_def)
  next
    case False
    with Cons.prems have "ladybugEnqueue cp step ns (queue, visited) = (queue', visited')"
      by auto
    from Cons.IH [OF this] show ?thesis by simp
  qed
qed

lemma length_ladybugNeighbors: "length (ladybugNeighbors b f mid c step) \<le> 6"
  unfolding ladybugNeighbors_def getLadybugStepOneNeighbors_def getLadybugStepTwoNeighbors_def
    getLadybugStepThreeNeighbors_def
  using length_filter_le [of _ "getNeighbors c"] by simp

lemma ladybugNeighbors_late: "3 < step \<Longrightarrow> ladybugNeighbors b f mid c step = []"
  by (simp add: ladybugNeighbors_def)

lemma ladybug_step_decreases:
  assumes "ladybugEnqueue cp step (ladybugNeighbors b f mid c step) (rest, visited)
             = (queue', visited')"
    and "step \<noteq> 3"
  shows "ladybugMeasure queue' < ladybugMeasure ((c, cp, step) # rest)"
proof (cases "step < 3")
  case True
  from ladybugEnqueue_measure [OF assms(1)]
  have "ladybugMeasure queue' \<le> ladybugMeasure rest
          + length (ladybugNeighbors b f mid c step) * stepWeight (Suc (Suc step))" .
  also from length_ladybugNeighbors [of b f mid c step]
  have "\<dots> \<le> ladybugMeasure rest + 6 * stepWeight (Suc (Suc step))"
    by simp
  also from True stepWeight_step [of "Suc step"]
  have "\<dots> < ladybugMeasure rest + stepWeight (Suc step)"
    by simp
  finally show ?thesis by (simp add: ladybugMeasure_def)
next
  case False
  with assms(2) have "3 < step" by simp
  with assms(1) have "queue' = rest"
    by (simp add: ladybugNeighbors_late)
  then show ?thesis
    by (simp add: ladybugMeasure_def stepWeight_pos)
qed

function ladybugLoop ::
  "board \<Rightarrow> hex \<Rightarrow> hex \<Rightarrow> insect_id \<Rightarrow> (hex \<times> hex list \<times> nat) list \<Rightarrow> (hex \<times> nat) list
     \<Rightarrow> hex list list \<Rightarrow> hex list list" where
  "ladybugLoop b fromHex toHex movingInsectId queue visited validPaths =
     (case queue of
        [] \<Rightarrow> validPaths
      | (currentHex, currentPath, step) # rest \<Rightarrow>
          if step = 3
          then ladybugLoop b fromHex toHex movingInsectId rest visited
                 (if currentHex = toHex then validPaths @ [currentPath] else validPaths)
          else (case ladybugEnqueue currentPath step
                       (ladybugNeighbors b fromHex movingInsectId currentHex step)
                       (rest, visited) of
                  (queue', visited') \<Rightarrow>
                    ladybugLoop b fromHex toHex movingInsectId queue' visited' validPaths))"
  by pat_completeness auto
termination
proof (relation "measure (\<lambda>(b, f, t, m, queue, visited, vp). ladybugMeasure queue)",
    goal_cases)
  case 1
  show ?case by simp
next
  case (2 b fromHex toHex movingInsectId queue visited validPaths a rest currentHex x
      currentPath step)
  then show ?case
    by (auto simp: ladybugMeasure_def stepWeight_pos)
next
  case (3 b fromHex toHex movingInsectId queue visited validPaths a rest currentHex x
      currentPath step queue' visited')
  from 3 have "ladybugEnqueue currentPath step
                 (ladybugNeighbors b fromHex movingInsectId currentHex step) (rest, visited)
               = (queue', visited')" by simp
  from ladybug_step_decreases [OF this] 3
  show ?case by auto
qed

declare ladybugLoop.simps [simp del]

definition findLadybugPath :: "board \<Rightarrow> hex \<Rightarrow> hex \<Rightarrow> insect_id \<Rightarrow> path_result" where
  "findLadybugPath b fromHex toHex movingInsectId =
     (case ladybugLoop b fromHex toHex movingInsectId [(fromHex, [fromHex], 0)]
             [(fromHex, 0)] [] of
        firstPath # others \<Rightarrow> path_found firstPath
      | [] \<Rightarrow> path_blocked [fromHex] (Some fromHex))"

section \<open>Pillbug walk and mosquito\<close>

definition findPillbugPath :: "board \<Rightarrow> hex \<Rightarrow> hex \<Rightarrow> insect_id \<Rightarrow> path_result" where
  "findPillbugPath b fromHex toHex movingInsectId =
     (if distance fromHex toHex \<noteq> 1 then path_blocked [fromHex] (Some fromHex)
      else (let walkingNeighbors = getWalkingNeighbors b fromHex movingInsectId;
                canReach = list_ex (\<lambda>neighbor. neighbor = toHex) walkingNeighbors
            in if canReach then path_found [fromHex, toHex]
               else path_blocked [fromHex] (Some fromHex)))"

text \<open>
  \<open>getMosquitoAdjacentInsects\<close> returns a \<open>Set\<close> of insect kinds, which iterates in
  insertion order: a list without repetitions.
\<close>

fun mosquitoCollect :: "board \<Rightarrow> insect_id \<Rightarrow> hex list \<Rightarrow> kind list \<Rightarrow> kind list" where
  "mosquitoCollect b movingInsectId [] adjacentTypes = adjacentTypes"
| "mosquitoCollect b movingInsectId (neighbor # neighbors) adjacentTypes =
     (let stack = getInsectStack b neighbor
      in if 0 < length stack
         then (let topInsect = last stack
               in if id topInsect = movingInsectId
                  then mosquitoCollect b movingInsectId neighbors adjacentTypes
                  else if insect topInsect \<noteq> Mosquito
                  then mosquitoCollect b movingInsectId neighbors
                         (if insect topInsect \<in> set adjacentTypes then adjacentTypes
                          else adjacentTypes @ [insect topInsect])
                  else mosquitoCollect b movingInsectId neighbors adjacentTypes)
         else mosquitoCollect b movingInsectId neighbors adjacentTypes)"

definition getMosquitoAdjacentInsects :: "board \<Rightarrow> hex \<Rightarrow> insect_id \<Rightarrow> kind list" where
  "getMosquitoAdjacentInsects b fromHex movingInsectId =
     mosquitoCollect b movingInsectId (getNeighbors fromHex) []"

text \<open>The \<open>switch\<close> of \<open>findMosquitoPath\<close>; it has no case for the mosquito itself.\<close>

definition copiedPath ::
  "board \<Rightarrow> hex \<Rightarrow> hex \<Rightarrow> insect_id \<Rightarrow> kind \<Rightarrow> path_result option" where
  "copiedPath b fromHex toHex movingInsectId insectType =
     (case insectType of
        Queen \<Rightarrow> Some (findQueenPath b fromHex toHex movingInsectId)
      | Ant \<Rightarrow> Some (findAntPath b fromHex toHex movingInsectId)
      | Beetle \<Rightarrow> Some (findBeetlePath b fromHex toHex movingInsectId)
      | Hopper \<Rightarrow> Some (findHopperPath b fromHex toHex movingInsectId)
      | Spider \<Rightarrow> Some (findSpiderPath b fromHex toHex movingInsectId)
      | Ladybug \<Rightarrow> Some (findLadybugPath b fromHex toHex movingInsectId)
      | Pillbug \<Rightarrow> Some (findPillbugPath b fromHex toHex movingInsectId)
      | Mosquito \<Rightarrow> None)"

fun mosquitoTry :: "board \<Rightarrow> hex \<Rightarrow> hex \<Rightarrow> insect_id \<Rightarrow> kind list \<Rightarrow> path_result" where
  "mosquitoTry b fromHex toHex movingInsectId [] = path_blocked [fromHex] (Some fromHex)"
| "mosquitoTry b fromHex toHex movingInsectId (insectType # others) =
     (case copiedPath b fromHex toHex movingInsectId insectType of
        Some result \<Rightarrow>
          if success result then result\<lparr>copiedFrom := Some insectType\<rparr>
          else mosquitoTry b fromHex toHex movingInsectId others
      | None \<Rightarrow> mosquitoTry b fromHex toHex movingInsectId others)"

definition findMosquitoPath :: "board \<Rightarrow> hex \<Rightarrow> hex \<Rightarrow> insect_id \<Rightarrow> path_result" where
  "findMosquitoPath b fromHex toHex movingInsectId =
     (let adjacentInsects = getMosquitoAdjacentInsects b fromHex movingInsectId
      in if length adjacentInsects = 0 then path_blocked [fromHex] (Some fromHex)
         else mosquitoTry b fromHex toHex movingInsectId adjacentInsects)"

section \<open>Hive connectivity\<close>

text \<open>
  \<open>wouldSplitHive\<close> flood-fills the occupied hexes other than \<open>hexToRemove\<close>, whatever
  the height of the stack there.
\<close>

fun splitEnqueue ::
  "hex \<Rightarrow> hex list \<Rightarrow> hex list \<Rightarrow> hex list \<times> hex list \<Rightarrow> hex list \<times> hex list" where
  "splitEnqueue hexKey occupiedHexes [] (queue, visited) = (queue, visited)"
| "splitEnqueue hexKey occupiedHexes (neighbor # neighbors) (queue, visited) =
     (if neighbor = hexKey
      then splitEnqueue hexKey occupiedHexes neighbors (queue, visited)
      else if neighbor \<notin> set visited
      then (let isOccupied = list_ex (\<lambda>h. h = neighbor) occupiedHexes
            in if isOccupied
               then splitEnqueue hexKey occupiedHexes neighbors
                      (queue @ [neighbor], visited @ [neighbor])
               else splitEnqueue hexKey occupiedHexes neighbors (queue, visited))
      else splitEnqueue hexKey occupiedHexes neighbors (queue, visited))"

definition floodMeasure :: "hex list \<Rightarrow> hex list \<Rightarrow> hex list \<Rightarrow> nat" where
  "floodMeasure hexes queue visited = 2 * card (set hexes - set visited) + length queue"

lemma floodMeasure_push:
  assumes "n \<in> set hexes" and "n \<notin> set visited"
  shows "floodMeasure hexes (queue @ [n]) (visited @ [n]) < floodMeasure hexes queue visited"
proof -
  have fin: "finite (set hexes - set visited)" by simp
  from assms have mem: "n \<in> set hexes - set visited" by simp
  have "set hexes - set (visited @ [n]) = (set hexes - set visited) - {n}" by auto
  with fin mem have "card (set hexes - set (visited @ [n])) = card (set hexes - set visited) - 1"
    by simp
  moreover from fin mem have "0 < card (set hexes - set visited)"
    by (auto simp: card_gt_0_iff)
  ultimately show ?thesis by (simp add: floodMeasure_def)
qed

lemma splitEnqueue_measure:
  "splitEnqueue k occ ns (queue, visited) = (queue', visited') \<Longrightarrow>
   floodMeasure occ queue' visited' \<le> floodMeasure occ queue visited"
proof (induction ns arbitrary: queue visited)
  case Nil
  then show ?case by simp
next
  case (Cons n ns)
  show ?case
  proof (cases "n \<noteq> k \<and> n \<notin> set visited \<and> n \<in> set occ")
    case True
    with Cons.prems have "splitEnqueue k occ ns (queue @ [n], visited @ [n]) = (queue', visited')"
      by (simp add: list_ex_iff)
    from Cons.IH [OF this] floodMeasure_push [of n occ visited queue] True
    show ?thesis by simp
  next
    case False
    with Cons.prems have "splitEnqueue k occ ns (queue, visited) = (queue', visited')"
      by (auto simp: list_ex_iff split: if_splits)
    from Cons.IH [OF this] show ?thesis .
  qed
qed

function splitLoop :: "hex \<Rightarrow> hex list \<Rightarrow> hex list \<Rightarrow> hex list \<Rightarrow> hex list" where
  "splitLoop hexKey occupiedHexes queue visited =
     (case queue of
        [] \<Rightarrow> visited
      | current # rest \<Rightarrow>
          (case splitEnqueue hexKey occupiedHexes (getNeighbors current) (rest, visited) of
             (queue', visited') \<Rightarrow> splitLoop hexKey occupiedHexes queue' visited'))"
  by pat_completeness auto
termination
proof (relation "measure (\<lambda>(k, occ, queue, visited). floodMeasure occ queue visited)",
    goal_cases)
  case 1
  show ?case by simp
next
  case (2 hexKey occupiedHexes queue visited current rest queue' visited')
  from 2 have "splitEnqueue hexKey occupiedHexes (getNeighbors current) (rest, visited)
                 = (queue', visited')" by simp
  from splitEnqueue_measure [OF this] 2(1) show ?case
    by (simp add: floodMeasure_def)
qed

declare splitLoop.simps [simp del]

definition wouldSplitHive :: "board \<Rightarrow> hex \<Rightarrow> bool" where
  "wouldSplitHive b hexToRemove =
     (let originalStack = getInsectStack b hexToRemove
      in if length originalStack = 0 then False
         else (let occupiedHexes =
                     filter (\<lambda>key. key \<noteq> hexToRemove \<and> 0 < length (getInsectStack b key))
                       (board_keys b)
               in case occupiedHexes of
                    [] \<Rightarrow> False
                  | first # others \<Rightarrow>
                      (let visited = splitLoop hexToRemove occupiedHexes [first] [first]
                       in length visited \<noteq> length occupiedHexes)))"

text \<open>
  \<open>isHiveConnectedWithout(excludeHex)\<close>: the hex stays among the remaining ones when
  its stack is higher than one.
\<close>

fun connectedEnqueue ::
  "hex list \<Rightarrow> hex list \<Rightarrow> hex list \<times> hex list \<Rightarrow> hex list \<times> hex list" where
  "connectedEnqueue remainingHexes [] (queue, visited) = (queue, visited)"
| "connectedEnqueue remainingHexes (neighbor # neighbors) (queue, visited) =
     (if neighbor \<in> set remainingHexes \<and> neighbor \<notin> set visited
      then connectedEnqueue remainingHexes neighbors (queue @ [neighbor], visited @ [neighbor])
      else connectedEnqueue remainingHexes neighbors (queue, visited))"

lemma connectedEnqueue_measure:
  "connectedEnqueue rem ns (queue, visited) = (queue', visited') \<Longrightarrow>
   floodMeasure rem queue' visited' \<le> floodMeasure rem queue visited"
proof (induction ns arbitrary: queue visited)
  case Nil
  then show ?case by simp
next
  case (Cons n ns)
  show ?case
  proof (cases "n \<in> set rem \<and> n \<notin> set visited")
    case True
    with Cons.prems have "connectedEnqueue rem ns (queue @ [n], visited @ [n]) = (queue', visited')"
      by simp
    from Cons.IH [OF this] floodMeasure_push [of n rem visited queue] True
    show ?thesis by simp
  next
    case False
    with Cons.prems have "connectedEnqueue rem ns (queue, visited) = (queue', visited')"
      by (auto split: if_splits)
    from Cons.IH [OF this] show ?thesis .
  qed
qed

function connectedLoop :: "hex list \<Rightarrow> hex list \<Rightarrow> hex list \<Rightarrow> hex list" where
  "connectedLoop remainingHexes queue visited =
     (case queue of
        [] \<Rightarrow> visited
      | current # rest \<Rightarrow>
          (case connectedEnqueue remainingHexes (getNeighbors current) (rest, visited) of
             (queue', visited') \<Rightarrow> connectedLoop remainingHexes queue' visited'))"
  by pat_completeness auto
termination
proof (relation "measure (\<lambda>(rem, queue, visited). floodMeasure rem queue visited)",
    goal_cases)
  case 1
  show ?case by simp
next
  case (2 remainingHexes queue visited current rest queue' visited')
  from 2 have "connectedEnqueue remainingHexes (getNeighbors current) (rest, visited)
                 = (queue', visited')" by simp
  from connectedEnqueue_measure [OF this] 2(1) show ?case
    by (simp add: floodMeasure_def)
qed

declare connectedLoop.simps [simp del]

definition remainingWithout :: "board \<Rightarrow> hex \<Rightarrow> hex list" where
  "remainingWithout b excludeHex =
     filter (\<lambda>key. if key = excludeHex then 1 < length (getInsectStack b key) else True)
       (board_keys b)"

definition isHiveConnectedWithout :: "board \<Rightarrow> hex \<Rightarrow> bool" where
  "isHiveConnectedWithout b excludeHex =
     (let remainingHexes = remainingWithout b excludeHex
      in if length remainingHexes \<le> 1 then True
         else (case remainingHexes of
                 [] \<Rightarrow> True
               | first # others \<Rightarrow>
                   (let visited = connectedLoop remainingHexes [first] [first]
                    in length visited = length remainingHexes)))"

section \<open>Pillbug throw\<close>

definition canPillbugThrowPiece :: "board \<Rightarrow> hex \<Rightarrow> hex \<Rightarrow> insect_id \<Rightarrow> bool" where
  "canPillbugThrowPiece b pillbugHex pieceHex pieceId =
     (if distance pillbugHex pieceHex \<noteq> 1 then False
      else (let stack = getInsectStack b pieceHex
            in if length stack = 0 then False
               else if 1 < length stack then False
               else if wouldSplitHive b pieceHex then False
               else True))"

definition getPillbugThrowDestinations :: "board \<Rightarrow> hex \<Rightarrow> hex \<Rightarrow> insect_id \<Rightarrow> hex list" where
  "getPillbugThrowDestinations b pillbugHex thrownPieceHex thrownPieceId =
     filter (\<lambda>neighbor. neighbor \<noteq> thrownPieceHex
                       \<and> emptyOrMoving b thrownPieceId neighbor
                       \<and> touchesHive b neighbor thrownPieceId (Some thrownPieceHex))
       (getNeighbors pillbugHex)"

text \<open>The first key of the board, in insertion order, that passes the test.\<close>

fun findPillbugIn ::
  "board \<Rightarrow> hex \<Rightarrow> insect_id \<Rightarrow> player \<Rightarrow> hex list \<Rightarrow> (insect \<times> hex) option" where
  "findPillbugIn b pieceHex pieceId currentPlayer [] = None"
| "findPillbugIn b pieceHex pieceId currentPlayer (hexKey # keys) =
     (let stack = getInsectStack b hexKey
      in if length stack = 0 then findPillbugIn b pieceHex pieceId currentPlayer keys
         else (let topInsect = last stack
               in if player topInsect = currentPlayer \<and> insect topInsect = Pillbug
                     \<and> canPillbugThrowPiece b hexKey pieceHex pieceId
                  then Some (topInsect, hexKey)
                  else findPillbugIn b pieceHex pieceId currentPlayer keys))"

definition findPillbugThatCanThrow ::
  "board \<Rightarrow> hex \<Rightarrow> insect_id \<Rightarrow> player \<Rightarrow> (insect \<times> hex) option" where
  "findPillbugThatCanThrow b pieceHex pieceId currentPlayer =
     findPillbugIn b pieceHex pieceId currentPlayer (board_keys b)"

fun findMosquitoIn ::
  "board \<Rightarrow> hex \<Rightarrow> insect_id \<Rightarrow> player \<Rightarrow> hex list \<Rightarrow> (insect \<times> hex) option" where
  "findMosquitoIn b pieceHex pieceId currentPlayer [] = None"
| "findMosquitoIn b pieceHex pieceId currentPlayer (hexKey # keys) =
     (let stack = getInsectStack b hexKey
      in if length stack = 0 then findMosquitoIn b pieceHex pieceId currentPlayer keys
         else (let topInsect = last stack
               in if player topInsect = currentPlayer \<and> insect topInsect = Mosquito
                  then (let adjacentInsects = getMosquitoAdjacentInsects b hexKey (id topInsect)
                        in if Pillbug \<notin> set adjacentInsects
                           then findMosquitoIn b pieceHex pieceId currentPlayer keys
                           else if canPillbugThrowPiece b hexKey pieceHex pieceId
                           then Some (topInsect, hexKey)
                           else findMosquitoIn b pieceHex pieceId currentPlayer keys)
                  else findMosquitoIn b pieceHex pieceId currentPlayer keys))"

definition findMosquitoThatCanThrow ::
  "board \<Rightarrow> hex \<Rightarrow> insect_id \<Rightarrow> player \<Rightarrow> (insect \<times> hex) option" where
  "findMosquitoThatCanThrow b pieceHex pieceId currentPlayer =
     findMosquitoIn b pieceHex pieceId currentPlayer (board_keys b)"

definition findPillbugThrowPath :: "board \<Rightarrow> hex \<Rightarrow> hex \<Rightarrow> hex \<Rightarrow> insect_id \<Rightarrow> path_result" where
  "findPillbugThrowPath b pillbugHex fromHex toHex pieceId =
     (let validDestinations = getPillbugThrowDestinations b pillbugHex fromHex pieceId;
          canReach = list_ex (\<lambda>dest. dest = toHex) validDestinations
      in if canReach
         then \<lparr>success = True, path = [fromHex, pillbugHex, toHex], blockedAt = None,
               copiedFrom = None, isPillbugThrow = Some True\<rparr>
         else \<lparr>success = False, path = [fromHex], blockedAt = Some fromHex,
               copiedFrom = None, isPillbugThrow = Some False\<rparr>)"

section \<open>Placement\<close>

definition opponent :: "player \<Rightarrow> player" where
  "opponent p = (if p = P1 then P2 else P1)"

definition topOwnedBy :: "board \<Rightarrow> player \<Rightarrow> hex \<Rightarrow> bool" where
  "topOwnedBy b p k = (case getTopInsect b k of None \<Rightarrow> False | Some i \<Rightarrow> player i = p)"

text \<open>
  \<open>canPlaceInsect(hex)\<close>; the current player is read from \<open>gameState\<close> and is passed
  here explicitly. The two counters are compared with zero only.
\<close>

definition canPlaceInsect :: "board \<Rightarrow> player \<Rightarrow> hex \<Rightarrow> bool" where
  "canPlaceInsect b currentPlayer h =
     (let neighbors = getNeighbors h;
          opponentPlayer = opponent currentPlayer;
          currentPlayerPieces = length (filter (topOwnedBy b currentPlayer) (board_keys b));
          opponentPieces = length (filter (topOwnedBy b opponentPlayer) (board_keys b))
      in if currentPlayerPieces = 0 \<and> opponentPieces = 0 then True
         else if currentPlayerPieces = 0 \<and> 0 < opponentPieces
              then list_ex (topOwnedBy b opponentPlayer) neighbors
         else (let hasFriendlyNeighbor = list_ex (topOwnedBy b currentPlayer) neighbors;
                   hasOpponentNeighbor = list_ex (topOwnedBy b opponentPlayer) neighbors
               in hasFriendlyNeighbor \<and> \<not> hasOpponentNeighbor))"

text \<open>Whether a player has any piece on the board, at any height of any stack.\<close>

definition hasPieceOnBoard :: "board \<Rightarrow> player \<Rightarrow> bool" where
  "hasPieceOnBoard b p = list_ex (\<lambda>(k, stack). list_ex (\<lambda>i. player i = p) stack) b"

subsection \<open>Facts about placement\<close>

lemma topOwnedBy_key: "topOwnedBy b p k \<Longrightarrow> k \<in> set (board_keys b)"
  by (auto simp: topOwnedBy_def getTopInsect_def board_keys_def
      split: option.splits dest: map_of_SomeD intro: rev_image_eqI)

lemma top_count_zero:
  "(length (filter (topOwnedBy b p) (board_keys b)) = 0) = (\<forall>k. \<not> topOwnedBy b p k)"
  by (auto simp: filter_empty_conv dest: topOwnedBy_key)

lemma canPlaceInsect_char:
  "canPlaceInsect b p h =
     (if (\<forall>k. \<not> topOwnedBy b p k) \<and> (\<forall>k. \<not> topOwnedBy b (opponent p) k) then True
      else if (\<forall>k. \<not> topOwnedBy b p k)
           then (\<exists>n \<in> set (getNeighbors h). topOwnedBy b (opponent p) n)
      else (\<exists>n \<in> set (getNeighbors h). topOwnedBy b p n) \<and>
           \<not> (\<exists>n \<in> set (getNeighbors h). topOwnedBy b (opponent p) n))"
  unfolding canPlaceInsect_def Let_def top_count_zero list_ex_iff
  by (simp only: neq0_conv [symmetric] top_count_zero) auto

lemma topOwnedBy_cases: "topOwnedBy b P1 k \<or> topOwnedBy b P2 k \<or> getTopInsect b k = None"
  by (cases "getTopInsect b k") (auto simp: topOwnedBy_def intro: player.exhaust)

lemma wf_board_top:
  assumes "wf_board b" and "(k, stack) \<in> set b"
  shows "getTopInsect b k = Some (last stack)"
proof -
  from assms have "map_of b k = Some stack"
    by (simp add: wf_board_def board_keys_def)
  moreover from assms have "stack \<noteq> []"
    by (auto simp: wf_board_def list_all_iff)
  ultimately show ?thesis by (simp add: getTopInsect_def)
qed

lemma wf_board_nonempty_top:
  assumes "wf_board b" and "b \<noteq> []"
  shows "\<exists>k. topOwnedBy b P1 k \<or> topOwnedBy b P2 k"
proof -
  from assms(2) obtain k stack where "(k, stack) \<in> set b"
    by (cases b) auto
  with assms(1) have "getTopInsect b k \<noteq> None"
    by (simp add: wf_board_top)
  with topOwnedBy_cases [of b k] show ?thesis by auto
qed

lemma topOwnedBy_hasPiece:
  assumes "topOwnedBy b p k"
  shows "hasPieceOnBoard b p"
proof -
  from assms obtain stack where s: "map_of b k = Some stack" "stack \<noteq> []" "player (last stack) = p"
    by (auto simp: topOwnedBy_def getTopInsect_def split: option.splits if_splits)
  then have "(k, stack) \<in> set b" by (auto dest: map_of_SomeD)
  moreover from s have "last stack \<in> set stack" by simp
  ultimately show ?thesis
    using s(3) unfolding hasPieceOnBoard_def list_ex_iff by blast
qed


lemmas placement_eval =
  canPlaceInsect_def topOwnedBy_def getTopInsect_def getNeighbors_def directions_def
  board_keys_def opponent_def hasPieceOnBoard_def wf_board_def example_pieces

text \<open>
  C10. \<open>canPlaceInsect\<close> reads the board only through the owner of the top piece
  of each stack: two boards whose stacks have the same top owners everywhere get the
  same answer. So a stack topped by an opponent piece counts as an opponent neighbour
  whatever lies beneath it, and a player none of whose pieces is on top of a stack is
  treated as having no piece on the board.
\<close>

theorem canPlaceInsect_top_piece_only:
  "((\<forall>k. map_option player (getTopInsect b k) = map_option player (getTopInsect b' k))
      \<longrightarrow> canPlaceInsect b p h = canPlaceInsect b' p h)
   \<and> (n \<in> set (getNeighbors h) \<and> topOwnedBy b (opponent p) n \<and> topOwnedBy b p k
      \<longrightarrow> \<not> canPlaceInsect b p h)
   \<and> ((\<forall>k. \<not> topOwnedBy b p k) \<and> topOwnedBy b (opponent p) k'
      \<longrightarrow> canPlaceInsect b p h = (\<exists>n \<in> set (getNeighbors h). topOwnedBy b (opponent p) n))"
proof (intro conjI impI)
  assume same: "\<forall>k. map_option player (getTopInsect b k) = map_option player (getTopInsect b' k)"
  have "topOwnedBy b x k = topOwnedBy b' x k" for x k
    using same [rule_format, of k]
    by (cases "getTopInsect b k"; cases "getTopInsect b' k") (auto simp: topOwnedBy_def)
  then have eq: "topOwnedBy b = topOwnedBy b'"
    by (intro ext)
  show "canPlaceInsect b p h = canPlaceInsect b' p h"
    by (simp only: canPlaceInsect_char eq)
next
  assume "n \<in> set (getNeighbors h) \<and> topOwnedBy b (opponent p) n \<and> topOwnedBy b p k"
  then show "\<not> canPlaceInsect b p h"
    by (auto simp: canPlaceInsect_char)
next
  assume "(\<forall>k. \<not> topOwnedBy b p k) \<and> topOwnedBy b (opponent p) k'"
  then show "canPlaceInsect b p h = (\<exists>n \<in> set (getNeighbors h). topOwnedBy b (opponent p) n)"
    by (auto simp: canPlaceInsect_char)
qed

theorem canPlaceInsect_top_piece_only_witness:
  "canPlaceInsect covered_board P1 (Hex (-1) 0) = canPlaceInsect beetle_board P1 (Hex (-1) 0)
   \<and> \<not> canPlaceInsect ((Hex 0 (-1), [a1]) # covered_board) P1 (Hex (-1) 0)
   \<and> canPlaceInsect covered_board P1 (Hex (-1) 0)"
proof -
  have same: "\<forall>k. map_option player (getTopInsect covered_board k)
                 = map_option player (getTopInsect beetle_board k)"
    by (simp add: getTopInsect_def covered_board_def beetle_board_def example_pieces)
  have nb: "Hex 0 0 \<in> set (getNeighbors (Hex (-1) 0))"
    by (simp add: getNeighbors_def directions_def)
  have opp: "topOwnedBy ((Hex 0 (-1), [a1]) # covered_board) (opponent P1) (Hex 0 0)"
    by (simp add: placement_eval covered_board_def)
  have own: "topOwnedBy ((Hex 0 (-1), [a1]) # covered_board) P1 (Hex 0 (-1))"
    by (simp add: placement_eval covered_board_def)
  have none: "\<forall>k. \<not> topOwnedBy covered_board P1 k"
    by (simp add: placement_eval covered_board_def)
  have opp': "topOwnedBy covered_board (opponent P1) (Hex 0 0)"
    by (simp add: placement_eval covered_board_def)
  have ex: "\<exists>n \<in> set (getNeighbors (Hex (-1) 0)). topOwnedBy covered_board (opponent P1) n"
    using nb opp' by blast
  from canPlaceInsect_top_piece_only
         [of covered_board beetle_board P1 "Hex (-1) 0" "Hex 0 0" "Hex 0 (-1)" "Hex 0 0"]
       canPlaceInsect_top_piece_only
         [of "(Hex 0 (-1), [a1]) # covered_board" beetle_board P1 "Hex (-1) 0" "Hex 0 0"
             "Hex 0 (-1)" "Hex 0 0"]
       same nb opp own none opp' ex
  show ?thesis by blast
qed

text \<open>
  What \<open>canPlaceInsect\<close> computes. It accepts any hex on an empty board. On a
  non-empty board, when the placing player has no piece on top of any stack, it accepts
  exactly the hexes with a neighbouring stack topped by an opponent piece. When the
  placing player has a piece on top of some stack, it accepts exactly the hexes with a
  friendly top piece and no opponent top piece among the neighbours.
\<close>

lemma canPlaceInsect_computes:
  "canPlaceInsect [] p h
   \<and> (wf_board b \<and> b \<noteq> [] \<and> (\<not> hasPieceOnBoard b p \<or> (\<forall>k. \<not> topOwnedBy b p k))
      \<longrightarrow> canPlaceInsect b p h = (\<exists>n \<in> set (getNeighbors h). topOwnedBy b (opponent p) n))
   \<and> (topOwnedBy b p k
      \<longrightarrow> canPlaceInsect b p h =
          ((\<exists>n \<in> set (getNeighbors h). topOwnedBy b p n) \<and>
           \<not> (\<exists>n \<in> set (getNeighbors h). topOwnedBy b (opponent p) n)))"
proof (intro conjI impI)
  show "canPlaceInsect [] p h"
    by (simp add: canPlaceInsect_def board_keys_def)
next
  assume a: "wf_board b \<and> b \<noteq> [] \<and> (\<not> hasPieceOnBoard b p \<or> (\<forall>k. \<not> topOwnedBy b p k))"
  then have none: "\<forall>k. \<not> topOwnedBy b p k"
    using topOwnedBy_hasPiece by blast
  from a obtain k where "topOwnedBy b P1 k \<or> topOwnedBy b P2 k"
    using wf_board_nonempty_top by blast
  with none have "topOwnedBy b (opponent p) k"
    by (cases p) (auto simp: opponent_def)
  with none show "canPlaceInsect b p h = (\<exists>n \<in> set (getNeighbors h). topOwnedBy b (opponent p) n)"
    by (auto simp: canPlaceInsect_char)
next
  assume "topOwnedBy b p k"
  then show "canPlaceInsect b p h =
          ((\<exists>n \<in> set (getNeighbors h). topOwnedBy b p n) \<and>
           \<not> (\<exists>n \<in> set (getNeighbors h). topOwnedBy b (opponent p) n))"
    by (auto simp: canPlaceInsect_char)
qed

lemma canPlaceInsect_computes_examples:
  "canPlaceInsect [] P1 (Hex 5 5)
   \<and> canPlaceInsect [(Hex 0 0, [q1])] P2 (Hex 1 0)
   \<and> \<not> canPlaceInsect [(Hex 0 0, [q1])] P2 (Hex 5 5)
   \<and> \<not> canPlaceInsect [(Hex 0 0, [q1]), (Hex 1 0, [q2])] P1 (Hex 2 0)"
proof -
  let ?b1 = "[(Hex 0 0, [q1])]"
  let ?b2 = "[(Hex 0 0, [q1]), (Hex 1 0, [q2])]"
  have wf: "wf_board ?b1" "?b1 \<noteq> []" "\<not> hasPieceOnBoard ?b1 P2"
    by (simp_all add: placement_eval)
  have yes: "\<exists>n \<in> set (getNeighbors (Hex 1 0)). topOwnedBy ?b1 (opponent P2) n"
    by (simp add: placement_eval)
  have no: "\<not> (\<exists>n \<in> set (getNeighbors (Hex 5 5)). topOwnedBy ?b1 (opponent P2) n)"
    by (simp add: placement_eval)
  have own: "topOwnedBy ?b2 P1 (Hex 0 0)"
    by (simp add: placement_eval)
  have nofriend: "\<not> (\<exists>n \<in> set (getNeighbors (Hex 2 0)). topOwnedBy ?b2 P1 n)"
    by (simp add: placement_eval)
  from canPlaceInsect_computes [of P1 "Hex 5 5" ?b1 "Hex 0 0"]
       canPlaceInsect_computes [of P2 "Hex 1 0" ?b1 "Hex 0 0"]
       canPlaceInsect_computes [of P2 "Hex 5 5" ?b1 "Hex 0 0"]
       canPlaceInsect_computes [of P1 "Hex 2 0" ?b2 "Hex 0 0"]
       wf yes no own nofriend
  show ?thesis by blast
qed

section \<open>Game state\<close>

text \<open>
  \<open>gameState\<close>, with \<open>movementSystem.currentPath\<close>, which the validators overwrite.
  Rendering, messages and the drag state belong to the page and are left out.
  \<open>Date.now()\<close> is an argument of the functions that read it.
\<close>

record move_entry =
  movePlayer :: player
  moveKind :: kind
  moveFrom :: "hex option"
  moveTo :: hex
  timestamp :: nat

record game_state =
  board :: board
  hand :: "player \<Rightarrow> kind \<Rightarrow> int"
  currentPlayer :: player
  gameOver :: bool
  winner :: "player option"
  turn :: nat
  queenPlaced :: "player \<Rightarrow> bool"
  turnCount :: "player \<Rightarrow> nat"
  moveHistory :: "move_entry list"
  insectMoveCount :: "kind \<Rightarrow> nat"
  currentPath :: "path_result option"

definition endTurn :: "game_state \<Rightarrow> game_state" where
  "endTurn s =
     s\<lparr>turn := turn s + 1,
       turnCount := (turnCount s)(currentPlayer s := turnCount s (currentPlayer s) + 1),
       currentPlayer := opponent (currentPlayer s)\<rparr>"

definition canPassTurn :: "game_state \<Rightarrow> bool" where
  "canPassTurn s = (queenPlaced s (currentPlayer s) \<or> 2 \<le> turnCount s (currentPlayer s))"

text \<open>The click handler of the pass button.\<close>

definition passTurn :: "game_state \<Rightarrow> game_state" where
  "passTurn s = (if canPassTurn s then endTurn s else s)"

text \<open>
  \<open>checkWinCondition\<close> stops at the first key, in insertion order, whose stack holds
  a queen with six occupied neighbours.
\<close>

fun surroundedQueen :: "board \<Rightarrow> hex list \<Rightarrow> insect option" where
  "surroundedQueen b [] = None"
| "surroundedQueen b (hexKey # keys) =
     (case find (\<lambda>i. insect i = Queen) (getInsectStack b hexKey) of
        Some queenInStack \<Rightarrow>
          (let adjacentInsects = filter (\<lambda>n. getTopInsect b n \<noteq> None) (getNeighbors hexKey)
           in if length adjacentInsects = 6 then Some queenInStack
              else surroundedQueen b keys)
      | None \<Rightarrow> surroundedQueen b keys)"

definition checkWinCondition :: "game_state \<Rightarrow> game_state" where
  "checkWinCondition s =
     (case surroundedQueen (board s) (board_keys (board s)) of
        Some queenInStack \<Rightarrow> s\<lparr>gameOver := True, winner := Some (opponent (player queenInStack))\<rparr>
      | None \<Rightarrow> s)"

definition recordMove :: "kind \<Rightarrow> hex option \<Rightarrow> hex \<Rightarrow> nat \<Rightarrow> game_state \<Rightarrow> game_state" where
  "recordMove insectType fromKey toKey now s =
     s\<lparr>moveHistory := moveHistory s @
          [\<lparr>movePlayer = currentPlayer s, moveKind = insectType, moveFrom = fromKey,
            moveTo = toKey, timestamp = now\<rparr>],
       insectMoveCount := (insectMoveCount s)(insectType := insectMoveCount s insectType + 1)\<rparr>"

text \<open>
  \<open>placeInsect(hex, insectType)\<close> returns \<open>false\<close> or \<open>true\<close>; the result here is
  that value with the state it leaves.
\<close>

definition placeInsect ::
  "bool \<Rightarrow> hex \<Rightarrow> kind \<Rightarrow> nat \<Rightarrow> game_state \<Rightarrow> bool \<times> game_state" where
  "placeInsect tournamentRules h insectType now s =
     (if tournamentRules \<and> insectType = Queen \<and> turnCount s (currentPlayer s) = 0
      then (False, s)
      else if \<not> queenPlaced s (currentPlayer s) \<and> turnCount s (currentPlayer s) = 3
              \<and> insectType \<noteq> Queen
      then (False, s)
      else if isHexOccupied (board s) h then (False, s)
      else if 0 < length (board s) \<and> \<not> canPlaceInsect (board s) (currentPlayer s) h
      then (False, s)
      else (let insectId = (currentPlayer s, insectType, now);
                s1 = s\<lparr>board := addInsectToHex (board s) h
                           \<lparr>player = currentPlayer s, insect = insectType, id = insectId\<rparr>\<rparr>;
                s2 = s1\<lparr>hand := (hand s1)(currentPlayer s1 :=
                           (hand s1 (currentPlayer s1))
                             (insectType := hand s1 (currentPlayer s1) insectType - 1))\<rparr>;
                s3 = (if insectType = Queen
                      then s2\<lparr>queenPlaced := (queenPlaced s2)(currentPlayer s2 := True)\<rparr>
                      else s2);
                s4 = recordMove insectType None h now s3
            in (True, endTurn (checkWinCondition s4))))"

section \<open>Move validation\<close>

datatype movement_type =
  Normal kind
  | PillbugThrow hex insect_id
  | MosquitoThrow hex insect_id

definition playerHasOnTop :: "board \<Rightarrow> player \<Rightarrow> kind \<Rightarrow> bool" where
  "playerHasOnTop b p k =
     list_ex (\<lambda>(key, stack). stack \<noteq> [] \<and> player (last stack) = p \<and> insect (last stack) = k) b"

definition getAvailableMovementTypes :: "game_state \<Rightarrow> insect \<Rightarrow> hex \<Rightarrow> movement_type list" where
  "getAvailableMovementTypes s i fromHex =
     (if player i = currentPlayer s then [Normal (insect i)] else [])
     @ (if playerHasOnTop (board s) (currentPlayer s) Pillbug
        then (case findPillbugThatCanThrow (board s) fromHex (id i) (currentPlayer s) of
                Some (pillbug, pillbugHex) \<Rightarrow> [PillbugThrow pillbugHex (id pillbug)]
              | None \<Rightarrow> [])
        else [])
     @ (if playerHasOnTop (board s) (currentPlayer s) Mosquito
        then (case findMosquitoThatCanThrow (board s) fromHex (id i) (currentPlayer s) of
                Some (mosquito, mosquitoHex) \<Rightarrow> [MosquitoThrow mosquitoHex (id mosquito)]
              | None \<Rightarrow> [])
        else [])"

text \<open>Each \<open>can...Reach\<close> stores the result in \<open>currentPath\<close> and returns its flag.\<close>

definition storePath :: "path_result \<Rightarrow> game_state \<Rightarrow> bool \<times> game_state" where
  "storePath result s = (success result, s\<lparr>currentPath := Some result\<rparr>)"

definition canQueenReach :: "insect \<Rightarrow> hex \<Rightarrow> hex \<Rightarrow> game_state \<Rightarrow> bool \<times> game_state" where
  "canQueenReach i fromHex toHex s = storePath (findQueenPath (board s) fromHex toHex (id i)) s"

definition canAntReach :: "insect \<Rightarrow> hex \<Rightarrow> hex \<Rightarrow> game_state \<Rightarrow> bool \<times> game_state" where
  "canAntReach i fromHex toHex s = storePath (findAntPath (board s) fromHex toHex (id i)) s"

definition canBeetleReach :: "insect \<Rightarrow> hex \<Rightarrow> hex \<Rightarrow> game_state \<Rightarrow> bool \<times> game_state" where
  "canBeetleReach i fromHex toHex s = storePath (findBeetlePath (board s) fromHex toHex (id i)) s"

definition canHopperReach :: "insect \<Rightarrow> hex \<Rightarrow> hex \<Rightarrow> game_state \<Rightarrow> bool \<times> game_state" where
  "canHopperReach i fromHex toHex s = storePath (findHopperPath (board s) fromHex toHex (id i)) s"

definition canSpiderReach :: "insect \<Rightarrow> hex \<Rightarrow> hex \<Rightarrow> game_state \<Rightarrow> bool \<times> game_state" where
  "canSpiderReach i fromHex toHex s = storePath (findSpiderPath (board s) fromHex toHex (id i)) s"

definition canMosquitoReach :: "insect \<Rightarrow> hex \<Rightarrow> hex \<Rightarrow> game_state \<Rightarrow> bool \<times> game_state" where
  "canMosquitoReach i fromHex toHex s =
     storePath (findMosquitoPath (board s) fromHex toHex (id i)) s"

definition canLadybugReach :: "insect \<Rightarrow> hex \<Rightarrow> hex \<Rightarrow> game_state \<Rightarrow> bool \<times> game_state" where
  "canLadybugReach i fromHex toHex s =
     storePath (findLadybugPath (board s) fromHex toHex (id i)) s"

definition canPillbugReach :: "insect \<Rightarrow> hex \<Rightarrow> hex \<Rightarrow> game_state \<Rightarrow> bool \<times> game_state" where
  "canPillbugReach i fromHex toHex s =
     storePath (findPillbugPath (board s) fromHex toHex (id i)) s"

definition canInsectReach :: "insect \<Rightarrow> hex \<Rightarrow> hex \<Rightarrow> game_state \<Rightarrow> bool \<times> game_state" where
  "canInsectReach i fromHex toHex s =
     (case insect i of
        Queen \<Rightarrow> canQueenReach i fromHex toHex s
      | Ant \<Rightarrow> canAntReach i fromHex toHex s
      | Beetle \<Rightarrow> canBeetleReach i fromHex toHex s
      | Hopper \<Rightarrow> canHopperReach i fromHex toHex s
      | Spider \<Rightarrow> canSpiderReach i fromHex toHex s
      | Mosquito \<Rightarrow> canMosquitoReach i fromHex toHex s
      | Ladybug \<Rightarrow> canLadybugReach i fromHex toHex s
      | Pillbug \<Rightarrow> canPillbugReach i fromHex toHex s)"

definition canMosquitoClimbAsBeelle :: "board \<Rightarrow> hex \<Rightarrow> insect_id \<Rightarrow> bool" where
  "canMosquitoClimbAsBeelle b mosquitoHex mosquitoId =
     (Beetle \<in> set (getMosquitoAdjacentInsects b mosquitoHex mosquitoId))"

definition canMoveNormally :: "insect \<Rightarrow> hex \<Rightarrow> hex \<Rightarrow> game_state \<Rightarrow> bool \<times> game_state" where
  "canMoveNormally i fromHex toHex s =
     (let targetOccupied = isHexOccupied (board s) toHex;
          canClimb = (insect i = Beetle
                      \<or> (insect i = Mosquito \<and> canMosquitoClimbAsBeelle (board s) fromHex (id i)))
      in if targetOccupied \<and> \<not> canClimb then (False, s)
         else (let touchesOtherInsect =
                     list_ex (\<lambda>n. n \<noteq> fromHex \<and> isHexOccupied (board s) n) (getNeighbors toHex)
               in if \<not> touchesOtherInsect \<and> 1 < length (board s) then (False, s)
                  else canInsectReach i fromHex toHex s))"

definition throwUsing :: "hex \<Rightarrow> insect \<Rightarrow> hex \<Rightarrow> hex \<Rightarrow> game_state \<Rightarrow> bool \<times> game_state" where
  "throwUsing throwerHex i fromHex toHex s =
     (let throwResult = findPillbugThrowPath (board s) throwerHex fromHex toHex (id i)
      in if success throwResult then (True, s\<lparr>currentPath := Some throwResult\<rparr>)
         else (False, s))"

definition canMoveUsingType ::
  "movement_type \<Rightarrow> insect \<Rightarrow> hex \<Rightarrow> hex \<Rightarrow> game_state \<Rightarrow> bool \<times> game_state" where
  "canMoveUsingType movementType i fromHex toHex s =
     (case movementType of
        Normal insectType \<Rightarrow> canMoveNormally i fromHex toHex s
      | PillbugThrow throwerHex throwerId \<Rightarrow> throwUsing throwerHex i fromHex toHex s
      | MosquitoThrow throwerHex throwerId \<Rightarrow> throwUsing throwerHex i fromHex toHex s)"

fun tryMovementTypes ::
  "movement_type list \<Rightarrow> insect \<Rightarrow> hex \<Rightarrow> hex \<Rightarrow> game_state \<Rightarrow> bool \<times> game_state" where
  "tryMovementTypes [] i fromHex toHex s = (False, s)"
| "tryMovementTypes (movementType # movementTypes) i fromHex toHex s =
     (case canMoveUsingType movementType i fromHex toHex s of
        (True, s') \<Rightarrow> (True, s')
      | (False, s') \<Rightarrow> tryMovementTypes movementTypes i fromHex toHex s')"

definition isValidMove :: "insect \<Rightarrow> hex \<Rightarrow> hex \<Rightarrow> game_state \<Rightarrow> bool \<times> game_state" where
  "isValidMove i fromHex toHex s =
     tryMovementTypes (getAvailableMovementTypes s i fromHex) i fromHex toHex s"

section \<open>Moving a piece\<close>

definition findInsectHex :: "board \<Rightarrow> insect_id \<Rightarrow> hex option" where
  "findInsectHex b insectId =
     find (\<lambda>hexKey. list_ex (\<lambda>bug. id bug = insectId) (getInsectStack b hexKey)) (board_keys b)"

text \<open>\<open>stack.splice(insectIndex, 1)\<close> at the first index whose piece has the id.\<close>

fun spliceFirst :: "insect_id \<Rightarrow> insect list \<Rightarrow> insect list" where
  "spliceFirst insectId [] = []"
| "spliceFirst insectId (bug # stack) =
     (if id bug = insectId then stack else bug # spliceFirst insectId stack)"

definition removeInsectFromHex :: "board \<Rightarrow> hex \<Rightarrow> insect_id \<Rightarrow> board" where
  "removeInsectFromHex b currentKey insectId =
     (let stack = getInsectStack b currentKey
      in if list_ex (\<lambda>bug. id bug = insectId) stack
         then (let stack' = spliceFirst insectId stack
               in if length stack' = 0 then filter (\<lambda>(key, st). key \<noteq> currentKey) b
                  else map (\<lambda>(key, st). if key = currentKey then (key, stack') else (key, st)) b)
         else b)"

text \<open>
  \<open>moveInsect(insect, targetHex)\<close> returns nothing; the flag of the result says
  whether the function reached the code that changes the board.
\<close>

definition moveInsect ::
  "bool \<Rightarrow> insect \<Rightarrow> hex \<Rightarrow> nat \<Rightarrow> game_state \<Rightarrow> bool \<times> game_state" where
  "moveInsect tournamentRules i targetHex now s =
     (if \<not> queenPlaced s (currentPlayer s) then (False, s)
      else if tournamentRules \<and> insect i = Queen \<and> turnCount s (currentPlayer s) = 0
      then (False, s)
      else (case findInsectHex (board s) (id i) of
              None \<Rightarrow> (False, s)
            | Some currentHex \<Rightarrow>
                (case isValidMove i currentHex targetHex s of
                   (False, s1) \<Rightarrow> (False, s1)
                 | (True, s1) \<Rightarrow>
                     if \<not> isHiveConnectedWithout (board s1) currentHex then (False, s1)
                     else (let s2 = s1\<lparr>board := addInsectToHex
                                      (removeInsectFromHex (board s1) currentHex (id i))
                                      targetHex i\<rparr>;
                               s3 = recordMove (insect i) (Some currentHex) targetHex now s2
                           in (True, endTurn (checkWinCondition s3))))))"

subsection \<open>Validation leaves the game untouched\<close>

text \<open>The two states agree on everything but \<open>currentPath\<close>.\<close>

definition sameGame :: "game_state \<Rightarrow> game_state \<Rightarrow> bool" where
  "sameGame s s' = (s' = s\<lparr>currentPath := currentPath s'\<rparr>)"

lemma sameGame_refl [simp]: "sameGame s s"
  by (simp add: sameGame_def)

lemma sameGame_path [simp]: "sameGame s (s\<lparr>currentPath := p\<rparr>)"
  by (simp add: sameGame_def)

lemma sameGame_trans: "sameGame s s' \<Longrightarrow> sameGame s' s'' \<Longrightarrow> sameGame s s''"
  unfolding sameGame_def
  by (metis game_state.surjective game_state.update_convs(11))

lemma sameGame_fields:
  "sameGame s s' \<Longrightarrow>
   board s' = board s \<and> hand s' = hand s \<and> currentPlayer s' = currentPlayer s
   \<and> gameOver s' = gameOver s \<and> winner s' = winner s \<and> turn s' = turn s
   \<and> queenPlaced s' = queenPlaced s \<and> turnCount s' = turnCount s
   \<and> moveHistory s' = moveHistory s \<and> insectMoveCount s' = insectMoveCount s"
  unfolding sameGame_def
  by (metis game_state.select_convs(1-10) game_state.surjective game_state.update_convs(11))

lemma storePath_same: "sameGame s (snd (storePath r s))"
  by (simp add: storePath_def)

lemma canInsectReach_same: "sameGame s (snd (canInsectReach i f t s))"
  by (cases "insect i")
     (simp_all add: canInsectReach_def canQueenReach_def canAntReach_def canBeetleReach_def
        canHopperReach_def canSpiderReach_def canMosquitoReach_def canLadybugReach_def
        canPillbugReach_def storePath_same)

lemma canMoveNormally_same: "sameGame s (snd (canMoveNormally i f t s))"
  by (simp add: canMoveNormally_def Let_def canInsectReach_same)

lemma throwUsing_same: "sameGame s (snd (throwUsing h i f t s))"
  by (simp add: throwUsing_def Let_def)

lemma canMoveUsingType_same: "sameGame s (snd (canMoveUsingType mt i f t s))"
  by (cases mt) (simp_all add: canMoveUsingType_def canMoveNormally_same throwUsing_same)

lemma tryMovementTypes_same: "sameGame s (snd (tryMovementTypes mts i f t s))"
proof (induction mts arbitrary: s)
  case Nil
  show ?case by simp
next
  case (Cons mt mts)
  obtain ok s' where r: "canMoveUsingType mt i f t s = (ok, s')"
    by (cases "canMoveUsingType mt i f t s")
  with canMoveUsingType_same [of s mt i f t] have s': "sameGame s s'" by simp
  show ?case
  proof (cases ok)
    case True
    with r s' show ?thesis by simp
  next
    case False
    with r have "snd (tryMovementTypes (mt # mts) i f t s) = snd (tryMovementTypes mts i f t s')"
      by simp
    with Cons [of s'] s' show ?thesis
      by (auto intro: sameGame_trans)
  qed
qed

lemma isValidMove_same: "sameGame s (snd (isValidMove i f t s))"
  by (simp add: isValidMove_def tryMovementTypes_same)

lemma moveInsect_cases:
  "moveInsect tr i t now s = (ok, s') \<Longrightarrow>
   (if ok
    then queenPlaced s (currentPlayer s)
         \<and> \<not> (tr \<and> insect i = Queen \<and> turnCount s (currentPlayer s) = 0)
         \<and> (\<exists>c s1. findInsectHex (board s) (id i) = Some c
                \<and> isValidMove i c t s = (True, s1)
                \<and> isHiveConnectedWithout (board s) c
                \<and> s' = endTurn (checkWinCondition (recordMove (insect i) (Some c) t now
                         (s1\<lparr>board := addInsectToHex
                               (removeInsectFromHex (board s) c (id i)) t i\<rparr>))))
    else sameGame s s')"
proof (cases "findInsectHex (board s) (id i)")
  case None
  assume "moveInsect tr i t now s = (ok, s')"
  with None show ?thesis
    by (auto simp: moveInsect_def split: if_splits)
next
  case (Some c)
  assume m: "moveInsect tr i t now s = (ok, s')"
  obtain v s1 where r: "isValidMove i c t s = (v, s1)"
    by (cases "isValidMove i c t s")
  with isValidMove_same [of s i c t] have s1: "sameGame s s1" by simp
  then have b: "board s1 = board s" by (simp add: sameGame_fields)
  show ?thesis
  proof (cases v)
    case True
    with m Some r s1 b show ?thesis
      by (auto simp: moveInsect_def Let_def split: if_splits)
  next
    case False
    with m Some r s1 b show ?thesis
      by (auto simp: moveInsect_def Let_def split: if_splits)
  qed
qed

lemma placeInsect_cases:
  "placeInsect tr h k now s = (ok, s') \<Longrightarrow>
   (if ok
    then \<not> (tr \<and> k = Queen \<and> turnCount s (currentPlayer s) = 0)
         \<and> \<not> (\<not> queenPlaced s (currentPlayer s) \<and> turnCount s (currentPlayer s) = 3 \<and> k \<noteq> Queen)
         \<and> \<not> isHexOccupied (board s) h
         \<and> (board s = [] \<or> canPlaceInsect (board s) (currentPlayer s) h)
    else s' = s)"
  by (auto simp: placeInsect_def Let_def split: if_splits)

subsection \<open>Example games\<close>

text \<open>\<open>INSECT_TYPES\<close> and \<open>initializeHand\<close>, with the three expansion switches.\<close>

definition insectCount :: "kind \<Rightarrow> int" where
  "insectCount k =
     (case k of Queen \<Rightarrow> 1 | Ant \<Rightarrow> 3 | Beetle \<Rightarrow> 2 | Hopper \<Rightarrow> 3 | Spider \<Rightarrow> 2
      | Mosquito \<Rightarrow> 1 | Ladybug \<Rightarrow> 1 | Pillbug \<Rightarrow> 1)"

definition initializeHand :: "bool \<Rightarrow> bool \<Rightarrow> bool \<Rightarrow> player \<Rightarrow> kind \<Rightarrow> int" where
  "initializeHand expansionMosquito expansionLadybug expansionPillbug p k =
     (if k = Mosquito \<or> k = Ladybug \<or> k = Pillbug
      then (if (k = Mosquito \<and> expansionMosquito) \<or> (k = Ladybug \<and> expansionLadybug)
               \<or> (k = Pillbug \<and> expansionPillbug)
            then insectCount k else 0)
      else insectCount k)"

definition newGame :: game_state where
  "newGame =
     \<lparr>board = [], hand = initializeHand False False False, currentPlayer = P1,
      gameOver = False, winner = None, turn = 0, queenPlaced = (\<lambda>p. False),
      turnCount = (\<lambda>p. 0), moveHistory = [], insectMoveCount = (\<lambda>k. 0),
      currentPath = None\<rparr>"

text \<open>Both queens placed, player 1 to move.\<close>

definition two_queens :: game_state where
  "two_queens =
     newGame\<lparr>board := [(Hex 0 0, [q1]), (Hex 1 0, [q2])], queenPlaced := (\<lambda>p. True),
             turnCount := (\<lambda>p. 1), turn := 2\<rparr>"

lemma connectedLoop_Nil [simp]: "connectedLoop rem [] visited = visited"
  by (subst connectedLoop.simps) simp

lemma connectedLoop_Cons:
  "connectedLoop rem (current # rest) visited =
     (case connectedEnqueue rem (getNeighbors current) (rest, visited) of
        (queue', visited') \<Rightarrow> connectedLoop rem queue' visited')"
  by (subst connectedLoop.simps) simp

lemmas game_eval =
  placeInsect_def moveInsect_def endTurn_def checkWinCondition_def recordMove_def
  passTurn_def canPassTurn_def addInsectToHex_def removeInsectFromHex_def findInsectHex_def
  isValidMove_def getAvailableMovementTypes_def playerHasOnTop_def canMoveUsingType_def
  canMoveNormally_def canInsectReach_def canQueenReach_def storePath_def findQueenPath_def
  getWalkingNeighbors_def isGate_def touchesHive_def commonNeighbors_def distance_def
  canPlaceInsect_def topOwnedBy_def getTopInsect_def opponent_def board_keys_def
  isHiveConnectedWithout_def remainingWithout_def connectedLoop_Cons board_eval

text \<open>
  C3. A rejected placement leaves the whole state as it was. A rejected move leaves
  the board, both hands, the queen flags, the turn counters, the current player and
  every other field of the game state as they were (the validators overwrite only the
  path kept for display). An accepted placement or move has passed every check of the
  legality chain.
\<close>

theorem rejected_action_changes_nothing:
  "(placeInsect tournamentRules h k now s = (False, s') \<longrightarrow> s' = s)
   \<and> (moveInsect tournamentRules i targetHex now s = (False, s'') \<longrightarrow>
        board s'' = board s \<and> hand s'' = hand s \<and> queenPlaced s'' = queenPlaced s
        \<and> turnCount s'' = turnCount s \<and> currentPlayer s'' = currentPlayer s
        \<and> turn s'' = turn s \<and> gameOver s'' = gameOver s \<and> winner s'' = winner s
        \<and> moveHistory s'' = moveHistory s \<and> insectMoveCount s'' = insectMoveCount s)
   \<and> (placeInsect tournamentRules h k now s = (True, s') \<longrightarrow>
        \<not> (tournamentRules \<and> k = Queen \<and> turnCount s (currentPlayer s) = 0)
        \<and> \<not> (\<not> queenPlaced s (currentPlayer s) \<and> turnCount s (currentPlayer s) = 3
              \<and> k \<noteq> Queen)
        \<and> \<not> isHexOccupied (board s) h
        \<and> (board s = [] \<or> canPlaceInsect (board s) (currentPlayer s) h))
   \<and> (moveInsect tournamentRules i targetHex now s = (True, s'') \<longrightarrow>
        queenPlaced s (currentPlayer s)
        \<and> \<not> (tournamentRules \<and> insect i = Queen \<and> turnCount s (currentPlayer s) = 0)
        \<and> (\<exists>c. findInsectHex (board s) (id i) = Some c
               \<and> fst (isValidMove i c targetHex s)
               \<and> isHiveConnectedWithout (board s) c))"
proof (intro conjI)
  show "placeInsect tournamentRules h k now s = (False, s') \<longrightarrow> s' = s"
  proof
    assume "placeInsect tournamentRules h k now s = (False, s')"
    from placeInsect_cases [OF this] show "s' = s" by simp
  qed
next
  have "sameGame s s''" if "moveInsect tournamentRules i targetHex now s = (False, s'')"
    using moveInsect_cases [OF that] by simp
  then show "moveInsect tournamentRules i targetHex now s = (False, s'') \<longrightarrow>
        board s'' = board s \<and> hand s'' = hand s \<and> queenPlaced s'' = queenPlaced s
        \<and> turnCount s'' = turnCount s \<and> currentPlayer s'' = currentPlayer s
        \<and> turn s'' = turn s \<and> gameOver s'' = gameOver s \<and> winner s'' = winner s
        \<and> moveHistory s'' = moveHistory s \<and> insectMoveCount s'' = insectMoveCount s"
    by (simp add: sameGame_fields)
next
  show "placeInsect tournamentRules h k now s = (True, s') \<longrightarrow>
        \<not> (tournamentRules \<and> k = Queen \<and> turnCount s (currentPlayer s) = 0)
        \<and> \<not> (\<not> queenPlaced s (currentPlayer s) \<and> turnCount s (currentPlayer s) = 3
              \<and> k \<noteq> Queen)
        \<and> \<not> isHexOccupied (board s) h
        \<and> (board s = [] \<or> canPlaceInsect (board s) (currentPlayer s) h)"
  proof
    assume "placeInsect tournamentRules h k now s = (True, s')"
    from placeInsect_cases [OF this]
    show "\<not> (tournamentRules \<and> k = Queen \<and> turnCount s (currentPlayer s) = 0)
        \<and> \<not> (\<not> queenPlaced s (currentPlayer s) \<and> turnCount s (currentPlayer s) = 3
              \<and> k \<noteq> Queen)
        \<and> \<not> isHexOccupied (board s) h
        \<and> (board s = [] \<or> canPlaceInsect (board s) (currentPlayer s) h)"
      by simp
  qed
next
  show "moveInsect tournamentRules i targetHex now s = (True, s'') \<longrightarrow>
        queenPlaced s (currentPlayer s)
        \<and> \<not> (tournamentRules \<and> insect i = Queen \<and> turnCount s (currentPlayer s) = 0)
        \<and> (\<exists>c. findInsectHex (board s) (id i) = Some c
               \<and> fst (isValidMove i c targetHex s)
               \<and> isHiveConnectedWithout (board s) c)"
  proof
    assume "moveInsect tournamentRules i targetHex now s = (True, s'')"
    from moveInsect_cases [OF this]
    show "queenPlaced s (currentPlayer s)
        \<and> \<not> (tournamentRules \<and> insect i = Queen \<and> turnCount s (currentPlayer s) = 0)
        \<and> (\<exists>c. findInsectHex (board s) (id i) = Some c
               \<and> fst (isValidMove i c targetHex s)
               \<and> isHiveConnectedWithout (board s) c)"
      by auto
  qed
qed

theorem rejected_action_changes_nothing_witness:
  "snd (placeInsect False (Hex 5 5) Ant 7 two_queens) = two_queens
   \<and> board (snd (moveInsect False q1 (Hex 7 7) 7 two_queens)) = board two_queens
   \<and> hand (snd (moveInsect False q1 (Hex 7 7) 7 two_queens)) = hand two_queens
   \<and> \<not> isHexOccupied (board two_queens) (Hex (-1) 0)
   \<and> isHiveConnectedWithout (board two_queens) (Hex 0 0)"
proof -
  have p: "placeInsect False (Hex 5 5) Ant 7 two_queens
             = (False, snd (placeInsect False (Hex 5 5) Ant 7 two_queens))"
    by (simp add: game_eval two_queens_def newGame_def example_pieces)
  have m: "moveInsect False q1 (Hex 7 7) 7 two_queens
             = (False, snd (moveInsect False q1 (Hex 7 7) 7 two_queens))"
    by (simp add: game_eval two_queens_def newGame_def example_pieces)
  have p': "placeInsect False (Hex (-1) 0) Ant 7 two_queens
             = (True, snd (placeInsect False (Hex (-1) 0) Ant 7 two_queens))"
    by (simp add: game_eval two_queens_def newGame_def example_pieces)
  have m': "moveInsect False q1 (Hex 0 1) 7 two_queens
             = (True, snd (moveInsect False q1 (Hex 0 1) 7 two_queens))"
    by (simp add: game_eval two_queens_def newGame_def example_pieces)
  have f: "findInsectHex (board two_queens) (id q1) = Some (Hex 0 0)"
    by (simp add: game_eval two_queens_def newGame_def example_pieces)
  from rejected_action_changes_nothing
         [of False "Hex 5 5" Ant 7 two_queens "snd (placeInsect False (Hex 5 5) Ant 7 two_queens)"
             q1 "Hex 7 7" "snd (moveInsect False q1 (Hex 7 7) 7 two_queens)"]
       rejected_action_changes_nothing
         [of False "Hex (-1) 0" Ant 7 two_queens
             "snd (placeInsect False (Hex (-1) 0) Ant 7 two_queens)"
             q1 "Hex 0 1" "snd (moveInsect False q1 (Hex 0 1) 7 two_queens)"]
       p m p' m' f
  show ?thesis by auto
qed

text \<open>
  A game in which player 1 never places the queen: three ants, then a pass on the
  fourth turn, which \<open>canPassTurn\<close> allows from the third turn on.
\<close>

definition deadline_turn4 :: game_state where
  "deadline_turn4 =
     (passTurn
      \<circ> snd \<circ> placeInsect False (Hex (-2) 0) Ant 5
      \<circ> snd \<circ> placeInsect False (Hex 2 0) Queen 4
      \<circ> snd \<circ> placeInsect False (Hex (-1) 0) Ant 3
      \<circ> snd \<circ> placeInsect False (Hex 1 0) Ant 2
      \<circ> snd \<circ> placeInsect False (Hex 0 0) Ant 1) newGame"

definition deadline_turn5 :: game_state where
  "deadline_turn5 = passTurn (passTurn deadline_turn4)"

lemmas start_eval = newGame_def initializeHand_def insectCount_def

lemma deadline_turn4_fields:
  "board deadline_turn4 =
     [(Hex 0 0, [\<lparr>player = P1, insect = Ant, id = (P1, Ant, 1)\<rparr>]),
      (Hex 1 0, [\<lparr>player = P2, insect = Ant, id = (P2, Ant, 2)\<rparr>]),
      (Hex (-1) 0, [\<lparr>player = P1, insect = Ant, id = (P1, Ant, 3)\<rparr>]),
      (Hex 2 0, [\<lparr>player = P2, insect = Queen, id = (P2, Queen, 4)\<rparr>]),
      (Hex (-2) 0, [\<lparr>player = P1, insect = Ant, id = (P1, Ant, 5)\<rparr>])]"
  "currentPlayer deadline_turn4 = P1"
  "queenPlaced deadline_turn4 P1 = False"
  "turnCount deadline_turn4 P1 = 3"
  "queenPlaced deadline_turn4 P2 = True"
  "turnCount deadline_turn4 P2 = 3"
  by (simp_all add: deadline_turn4_def game_eval start_eval)

lemma deadline_turn5_fields:
  "board deadline_turn5 = board deadline_turn4"
  "currentPlayer deadline_turn5 = P1"
  "queenPlaced deadline_turn5 P1 = False"
  "turnCount deadline_turn5 P1 = 4"
  by (simp_all add: deadline_turn5_def passTurn_def canPassTurn_def endTurn_def opponent_def
      deadline_turn4_fields)

text \<open>
  C5 at a game the program can reach. On the fourth turn the beetle is refused; after
  a pass the counter is 4, the queen is still in hand, and the same beetle is accepted.
\<close>

theorem queen_deadline_missed_after_pass:
  "\<not> queenPlaced deadline_turn4 (currentPlayer deadline_turn4)
   \<and> turnCount deadline_turn4 (currentPlayer deadline_turn4) = 3
   \<and> \<not> fst (placeInsect False (Hex (-3) 0) Beetle 6 deadline_turn4)
   \<and> \<not> queenPlaced deadline_turn5 (currentPlayer deadline_turn5)
   \<and> 3 \<le> turnCount deadline_turn5 (currentPlayer deadline_turn5)
   \<and> fst (placeInsect False (Hex (-3) 0) Beetle 6 deadline_turn5)"
  by (simp add: deadline_turn5_fields deadline_turn4_fields placeInsect_def
      canPlaceInsect_def topOwnedBy_def getTopInsect_def opponent_def board_keys_def board_eval)

text \<open>
  A game that covers a queen: both queens, then player 2's beetle walks round its own
  queen and climbs onto player 1's, while player 1 passes.
\<close>

definition covered_game :: game_state where
  "covered_game =
     (snd \<circ> moveInsect False b2 (Hex 0 0) 9
      \<circ> passTurn
      \<circ> snd \<circ> moveInsect False b2 (Hex 1 (-1)) 7
      \<circ> passTurn
      \<circ> snd \<circ> moveInsect False b2 (Hex 2 (-1)) 5
      \<circ> passTurn
      \<circ> snd \<circ> placeInsect False (Hex 2 0) Beetle 3
      \<circ> passTurn
      \<circ> snd \<circ> placeInsect False (Hex 1 0) Queen 2
      \<circ> snd \<circ> placeInsect False (Hex 0 0) Queen 1) newGame"

lemmas beetle_game_eval =
  canBeetleReach_def findBeetlePath_def getBeetleNeighbors_def canBeetleMoveOnHive_def

lemma covered_game_fields:
  "board covered_game = covered_board"
  "currentPlayer covered_game = P1"
  "queenPlaced covered_game P1 = True"
  "turnCount covered_game P1 = 5"
  by (simp_all add: covered_game_def game_eval beetle_game_eval start_eval covered_board_def
      example_pieces)

lemma board_after:
  "board (endTurn s) = board s"
  "board (checkWinCondition s) = board s"
  "board (recordMove k fromKey toKey now s) = board s"
  by (simp_all add: endTurn_def checkWinCondition_def recordMove_def split: option.splits)

lemma covered_game_more:
  "hand covered_game P1 Ant = 3"
  "queenPlaced covered_game P2 = True"
  "turnCount covered_game P2 = 5"
  by (simp_all add: covered_game_def game_eval beetle_game_eval start_eval covered_board_def
      example_pieces)

text \<open>
  \<open>isValidMove\<close> and \<open>moveInsect\<close> do not themselves look at the height of the piece
  they are given. Handed the queen that lies under the beetle, \<open>isValidMove\<close> accepts a
  step of it and \<open>moveInsect\<close> takes it out from under the beetle. Which piece they are
  handed is decided by the pointer handlers (section \<open>Picking up a piece\<close>).
\<close>

lemma moveInsect_given_covered_piece:
  "getInsectStack (board covered_game) (Hex 0 0) = [q1, b2]
   \<and> getTopInsect (board covered_game) (Hex 0 0) = Some b2
   \<and> fst (isValidMove q1 (Hex 0 0) (Hex 0 1) covered_game)
   \<and> fst (moveInsect False q1 (Hex 0 1) 11 covered_game)
   \<and> board (snd (moveInsect False q1 (Hex 0 1) 11 covered_game))
       = [(Hex 0 0, [b2]), (Hex 1 0, [q2]), (Hex 0 1, [q1])]"
  by (simp add: covered_game_fields game_eval covered_board_def example_pieces)

text \<open>
  C4 at a game the program can reach. Player 1 has placed the queen, which now lies
  under player 2's beetle, and is on the sixth turn with ants in hand. The hex
  \<open>(-1, 0)\<close> has no friendly top piece among its neighbours and has the opponent's
  beetle as a neighbour, so a later placement there is to be rejected. \<open>canPlaceInsect\<close>
  counts the pieces of a player with \<open>getTopInsect\<close>, finds none for player 1, applies
  the rule of the first piece and accepts the hex; \<open>placeInsect\<close> puts the ant there.
\<close>

theorem later_placement_beside_opponent:
  "board covered_game = covered_board
   \<and> currentPlayer covered_game = P1
   \<and> turnCount covered_game P1 = 5
   \<and> hasPieceOnBoard (board covered_game) P1
   \<and> 0 < hand covered_game P1 Ant
   \<and> \<not> list_ex (topOwnedBy (board covered_game) P1) (getNeighbors (Hex (-1) 0))
   \<and> list_ex (topOwnedBy (board covered_game) P2) (getNeighbors (Hex (-1) 0))
   \<and> canPlaceInsect (board covered_game) P1 (Hex (-1) 0)
   \<and> fst (placeInsect False (Hex (-1) 0) Ant 11 covered_game)
   \<and> board (snd (placeInsect False (Hex (-1) 0) Ant 11 covered_game))
       = covered_board @ [(Hex (-1) 0, [\<lparr>player = P1, insect = Ant, id = (P1, Ant, 11)\<rparr>])]"
  by (simp add: covered_game_fields covered_game_more placement_eval covered_board_def
      placeInsect_def isHexOccupied_def addInsectToHex_def board_after)

section \<open>One hive\<close>

text \<open>
  Connection inside a set of hexes: a chain of adjacent hexes of the set. The hexes
  form one hive when every two of them are connected.
\<close>

inductive connectedIn :: "hex set \<Rightarrow> hex \<Rightarrow> hex \<Rightarrow> bool" for S :: "hex set" where
  connected_self: "a \<in> S \<Longrightarrow> connectedIn S a a"
| connected_next: "connectedIn S a x \<Longrightarrow> y \<in> S \<Longrightarrow> y \<in> set (getNeighbors x)
                   \<Longrightarrow> connectedIn S a y"

definition hiveConnected :: "hex set \<Rightarrow> bool" where
  "hiveConnected S = (\<forall>a \<in> S. \<forall>c \<in> S. connectedIn S a c)"

definition occupied :: "board \<Rightarrow> hex set" where
  "occupied b = {k. isHexOccupied b k}"

definition oneHive :: "board \<Rightarrow> bool" where
  "oneHive b = (occupied b \<noteq> {} \<and> hiveConnected (occupied b))"

lemma connectedIn_mem: "connectedIn S a c \<Longrightarrow> a \<in> S \<and> c \<in> S"
  by (induction rule: connectedIn.induct) auto

lemma connectedIn_trans:
  "connectedIn S x y \<Longrightarrow> connectedIn S a x \<Longrightarrow> connectedIn S a y"
  by (induction rule: connectedIn.induct) (auto intro: connected_next)

lemma connectedIn_sym: "connectedIn S a c \<Longrightarrow> connectedIn S c a"
proof (induction rule: connectedIn.induct)
  case (connected_self a)
  then show ?case by (rule connectedIn.connected_self)
next
  case (connected_next a x y)
  from connected_next.hyps(1) have "x \<in> S" by (simp add: connectedIn_mem)
  with connected_next.hyps(2,3) have "connectedIn S y x"
    by (auto intro: connectedIn.intros neighbor_sym)
  with connected_next.IH show ?case
    by (rule connectedIn_trans)
qed

lemma connectedIn_mono: "connectedIn S a c \<Longrightarrow> S \<subseteq> T \<Longrightarrow> connectedIn T a c"
  by (induction rule: connectedIn.induct) (auto intro: connectedIn.intros)

lemma hiveConnected_from:
  assumes "\<forall>v \<in> S. connectedIn S a v"
  shows "hiveConnected S"
  unfolding hiveConnected_def
proof (intro ballI)
  fix x y assume "x \<in> S" "y \<in> S"
  with assms have "connectedIn S a x" "connectedIn S a y" by auto
  then show "connectedIn S x y"
    by (auto intro: connectedIn_trans connectedIn_sym)
qed

lemma hiveConnected_insert:
  assumes "hiveConnected R"
    and "R = {} \<or> t \<in> R \<or> (\<exists>n \<in> R. n \<in> set (getNeighbors t))"
  shows "hiveConnected (insert t R)"
proof (cases "R = {} \<or> t \<in> R")
  case True
  then show ?thesis
  proof
    assume "R = {}"
    then show ?thesis
      by (auto simp: hiveConnected_def intro: connectedIn.intros)
  next
    assume "t \<in> R"
    then have "insert t R = R" by auto
    with assms(1) show ?thesis by simp
  qed
next
  case False
  with assms(2) obtain n where n: "n \<in> R" "n \<in> set (getNeighbors t)" by blast
  have "\<forall>v \<in> insert t R. connectedIn (insert t R) n v"
  proof
    fix v assume v: "v \<in> insert t R"
    show "connectedIn (insert t R) n v"
    proof (cases "v = t")
      case True
      from n(1) have "connectedIn (insert t R) n n"
        by (auto intro: connectedIn.intros)
      moreover from n(2) have "t \<in> set (getNeighbors n)" by (rule neighbor_sym)
      ultimately show ?thesis
        using True by (auto intro: connected_next)
    next
      case False
      with v n(1) assms(1) have "connectedIn R n v"
        by (auto simp: hiveConnected_def)
      then show ?thesis
        by (rule connectedIn_mono) auto
    qed
  qed
  then show ?thesis by (rule hiveConnected_from)
qed

subsection \<open>The flood fill finds only connected hexes\<close>

lemma connectedEnqueue_inv:
  assumes "connectedEnqueue rem ns (queue, visited) = (queue', visited')"
    and "set ns \<subseteq> set (getNeighbors c)" and "connectedIn (set rem) a c"
    and "\<forall>v \<in> set visited. connectedIn (set rem) a v"
    and "set queue \<subseteq> set visited" and "distinct visited"
  shows "(\<forall>v \<in> set visited'. connectedIn (set rem) a v)
         \<and> set queue' \<subseteq> set visited' \<and> distinct visited'"
  using assms
proof (induction ns arbitrary: queue visited)
  case Nil
  then show ?case by simp
next
  case (Cons n ns)
  show ?case
  proof (cases "n \<in> set rem \<and> n \<notin> set visited")
    case True
    with Cons.prems(1) have e:
      "connectedEnqueue rem ns (queue @ [n], visited @ [n]) = (queue', visited')" by simp
    from True Cons.prems(2,3) have "connectedIn (set rem) a n"
      by (auto intro: connected_next)
    with Cons.prems(4) have v: "\<forall>v \<in> set (visited @ [n]). connectedIn (set rem) a v"
      by auto
    from Cons.prems(5) have q: "set (queue @ [n]) \<subseteq> set (visited @ [n])" by auto
    from True Cons.prems(6) have d: "distinct (visited @ [n])" by simp
    from Cons.prems(2) have "set ns \<subseteq> set (getNeighbors c)" by simp
    from Cons.IH [OF e this Cons.prems(3) v q d] show ?thesis .
  next
    case False
    with Cons.prems(1) have e: "connectedEnqueue rem ns (queue, visited) = (queue', visited')"
      by (auto split: if_splits)
    from Cons.prems(2) have "set ns \<subseteq> set (getNeighbors c)" by simp
    from Cons.IH [OF e this Cons.prems(3-6)] show ?thesis .
  qed
qed

lemma connectedLoop_sound:
  "\<forall>v \<in> set visited. connectedIn (set rem) a v \<Longrightarrow> set queue \<subseteq> set visited
   \<Longrightarrow> distinct visited \<Longrightarrow>
   (\<forall>v \<in> set (connectedLoop rem queue visited). connectedIn (set rem) a v)
   \<and> distinct (connectedLoop rem queue visited)"
proof (induction rem queue visited rule: connectedLoop.induct)
  case (1 rem queue visited)
  show ?case
  proof (cases queue)
    case Nil
    with "1.prems" show ?thesis by simp
  next
    case (Cons c rest)
    obtain queue' visited' where
      e: "connectedEnqueue rem (getNeighbors c) (rest, visited) = (queue', visited')"
      by (cases "connectedEnqueue rem (getNeighbors c) (rest, visited)")
    from "1.prems"(1,2) Cons have c: "connectedIn (set rem) a c" by auto
    from "1.prems"(2) Cons have r: "set rest \<subseteq> set visited" by auto
    from connectedEnqueue_inv [OF e _ c "1.prems"(1) r "1.prems"(3)]
    have inv: "\<forall>v \<in> set visited'. connectedIn (set rem) a v"
      "set queue' \<subseteq> set visited'" "distinct visited'" by auto
    from "1.IH" [OF Cons e [symmetric] inv] Cons e show ?thesis
      by (simp add: connectedLoop_Cons)
  qed
qed

lemma full_visit_connected:
  assumes "distinct rem" and "first \<in> set rem"
    and "length (connectedLoop rem [first] [first]) = length rem"
  shows "hiveConnected (set rem)"
proof -
  let ?v = "connectedLoop rem [first] [first]"
  from assms(2) have a: "\<forall>v \<in> set [first]. connectedIn (set rem) first v"
    by (auto intro: connectedIn.intros)
  have b: "set [first] \<subseteq> set [first]" and c: "distinct [first]"
    by simp_all
  note sound = connectedLoop_sound [OF a b c]
  from sound have s: "\<forall>v \<in> set ?v. connectedIn (set rem) first v"
    by (rule conjunct1)
  from sound have d: "distinct ?v"
    by (rule conjunct2)
  from s have sub: "set ?v \<subseteq> set rem"
    by (auto dest: connectedIn_mem)
  from d assms(1,3) have "card (set ?v) = card (set rem)"
    by (simp add: distinct_card)
  with sub have "set ?v = set rem"
    by (simp add: card_subset_eq)
  with s show ?thesis
    by (auto intro: hiveConnected_from)
qed

subsection \<open>The two flood fills agree\<close>

lemma splitEnqueue_connected:
  "k \<notin> set occ \<Longrightarrow> splitEnqueue k occ ns (queue, visited) = connectedEnqueue occ ns (queue, visited)"
  by (induction ns arbitrary: queue visited) (auto simp: list_ex_iff)

lemma splitLoop_Nil [simp]: "splitLoop k occ [] visited = visited"
  by (subst splitLoop.simps) simp

lemma splitLoop_Cons:
  "splitLoop k occ (current # rest) visited =
     (case splitEnqueue k occ (getNeighbors current) (rest, visited) of
        (queue', visited') \<Rightarrow> splitLoop k occ queue' visited')"
  by (subst splitLoop.simps) simp

lemma splitLoop_connected:
  "k \<notin> set occ \<Longrightarrow> splitLoop k occ queue visited = connectedLoop occ queue visited"
proof (induction occ queue visited rule: connectedLoop.induct)
  case (1 rem queue visited)
  show ?case
  proof (cases queue)
    case Nil
    then show ?thesis by simp
  next
    case (Cons c rest)
    obtain queue' visited' where
      e: "connectedEnqueue rem (getNeighbors c) (rest, visited) = (queue', visited')"
      by (cases "connectedEnqueue rem (getNeighbors c) (rest, visited)")
    from "1.IH" [OF Cons e [symmetric] "1.prems"] e Cons "1.prems" show ?thesis
      by (simp add: splitLoop_Cons connectedLoop_Cons splitEnqueue_connected)
  qed
qed

lemma occupied_iff_stack: "isHexOccupied b k = (getInsectStack b k \<noteq> [])"
  by (simp add: isHexOccupied_def getInsectStack_def split: option.splits)

lemma occupied_others:
  "set (filter (\<lambda>key. key \<noteq> c \<and> 0 < length (getInsectStack b key)) (board_keys b))
     = occupied b - {c}"
  using isHexOccupied_key [of b]
  by (auto simp: occupied_def occupied_iff_stack)

lemma wouldSplitHive_sound:
  assumes "\<not> wouldSplitHive b c" and "0 < length (getInsectStack b c)"
    and "distinct (board_keys b)"
  shows "hiveConnected (occupied b - {c})"
proof -
  let ?occ = "filter (\<lambda>key. key \<noteq> c \<and> 0 < length (getInsectStack b key)) (board_keys b)"
  have notin: "c \<notin> set ?occ" by simp
  from assms(3) have d: "distinct ?occ" by simp
  show ?thesis
  proof (cases ?occ)
    case Nil
    then have "set ?occ = {}" by simp
    then have "occupied b - {c} = {}" unfolding occupied_others .
    then show ?thesis by (simp only: hiveConnected_def ball_empty)
  next
    case (Cons first others)
    with assms(1,2) have "length (splitLoop c ?occ [first] [first]) = length ?occ"
      by (simp add: wouldSplitHive_def Let_def)
    with splitLoop_connected [OF notin, of "[first]" "[first]"]
    have len: "length (connectedLoop ?occ [first] [first]) = length ?occ"
      by simp
    from Cons have "first \<in> set ?occ" by simp
    from full_visit_connected [OF d this len] show ?thesis
      by (simp only: occupied_others)
  qed
qed

section \<open>Legal throws\<close>

lemma findPillbugIn_Some:
  "findPillbugIn b pieceHex pieceId p keys = Some (pillbug, h) \<Longrightarrow>
   h \<in> set keys \<and> canPillbugThrowPiece b h pieceHex pieceId
   \<and> getTopInsect b h = Some pillbug \<and> player pillbug = p \<and> insect pillbug = Pillbug"
proof (induction keys)
  case Nil
  then show ?case by simp
next
  case (Cons k keys)
  show ?case
  proof (cases "0 < length (getInsectStack b k) \<and> player (last (getInsectStack b k)) = p
                \<and> insect (last (getInsectStack b k)) = Pillbug
                \<and> canPillbugThrowPiece b k pieceHex pieceId")
    case True
    with Cons.prems have "pillbug = last (getInsectStack b k)" "h = k"
      by (auto simp: Let_def)
    with True show ?thesis
      by (auto simp: getTopInsect_def getInsectStack_def split: option.splits)
  next
    case False
    with Cons.prems have "findPillbugIn b pieceHex pieceId p keys = Some (pillbug, h)"
      by (auto simp: Let_def split: if_splits)
    with Cons.IH show ?thesis by simp
  qed
qed

lemma findMosquitoIn_Some:
  "findMosquitoIn b pieceHex pieceId p keys = Some (mosquito, h) \<Longrightarrow>
   h \<in> set keys \<and> canPillbugThrowPiece b h pieceHex pieceId
   \<and> getTopInsect b h = Some mosquito \<and> player mosquito = p \<and> insect mosquito = Mosquito
   \<and> Pillbug \<in> set (getMosquitoAdjacentInsects b h (id mosquito))"
proof (induction keys)
  case Nil
  then show ?case by simp
next
  case (Cons k keys)
  show ?case
  proof (cases "0 < length (getInsectStack b k) \<and> player (last (getInsectStack b k)) = p
                \<and> insect (last (getInsectStack b k)) = Mosquito
                \<and> Pillbug \<in> set (getMosquitoAdjacentInsects b k (id (last (getInsectStack b k))))
                \<and> canPillbugThrowPiece b k pieceHex pieceId")
    case True
    with Cons.prems have "mosquito = last (getInsectStack b k)" "h = k"
      by (auto simp: Let_def)
    with True show ?thesis
      by (auto simp: getTopInsect_def getInsectStack_def split: option.splits)
  next
    case False
    with Cons.prems have "findMosquitoIn b pieceHex pieceId p keys = Some (mosquito, h)"
      by (auto simp: Let_def split: if_splits)
    with Cons.IH show ?thesis by simp
  qed
qed

lemma in_if_list: "x \<in> set (if c then xs else []) \<Longrightarrow> x \<in> set xs"
  by (cases c) simp_all

lemma throw_entry_cases:
  "mt \<in> set (case r of None \<Rightarrow> [] | Some (thrower, h) \<Rightarrow> [f h (id thrower)]) \<Longrightarrow>
   \<exists>thrower h. r = Some (thrower, h) \<and> mt = f h (id thrower)"
  by (cases r) auto

lemma pillbugThrow_available:
  assumes "PillbugThrow h x \<in> set (getAvailableMovementTypes s i fromHex)"
  shows "\<exists>pb. findPillbugThatCanThrow (board s) fromHex (id i) (currentPlayer s)
                  = Some (pb, h) \<and> id pb = x"
proof -
  from assms consider
    "PillbugThrow h x \<in> set (if player i = currentPlayer s then [Normal (insect i)] else [])"
    | "PillbugThrow h x \<in> set
         (case findPillbugThatCanThrow (board s) fromHex (id i) (currentPlayer s) of
            None \<Rightarrow> [] | Some (pillbug, pillbugHex) \<Rightarrow> [PillbugThrow pillbugHex (id pillbug)])"
    | "PillbugThrow h x \<in> set
         (case findMosquitoThatCanThrow (board s) fromHex (id i) (currentPlayer s) of
            None \<Rightarrow> [] | Some (mosquito, mosquitoHex) \<Rightarrow> [MosquitoThrow mosquitoHex (id mosquito)])"
    unfolding getAvailableMovementTypes_def set_append Un_iff
    by (blast dest: in_if_list)
  then show ?thesis
  proof cases
    case 1
    then have "PillbugThrow h x \<in> set [Normal (insect i)]" by (rule in_if_list)
    then show ?thesis by simp
  next
    case 2
    from throw_entry_cases [OF this] show ?thesis by auto
  next
    case 3
    from throw_entry_cases [OF this] show ?thesis by auto
  qed
qed

lemma mosquitoThrow_available:
  assumes "MosquitoThrow h x \<in> set (getAvailableMovementTypes s i fromHex)"
  shows "\<exists>mq. findMosquitoThatCanThrow (board s) fromHex (id i) (currentPlayer s)
                  = Some (mq, h) \<and> id mq = x"
proof -
  from assms consider
    "MosquitoThrow h x \<in> set (if player i = currentPlayer s then [Normal (insect i)] else [])"
    | "MosquitoThrow h x \<in> set
         (case findPillbugThatCanThrow (board s) fromHex (id i) (currentPlayer s) of
            None \<Rightarrow> [] | Some (pillbug, pillbugHex) \<Rightarrow> [PillbugThrow pillbugHex (id pillbug)])"
    | "MosquitoThrow h x \<in> set
         (case findMosquitoThatCanThrow (board s) fromHex (id i) (currentPlayer s) of
            None \<Rightarrow> [] | Some (mosquito, mosquitoHex) \<Rightarrow> [MosquitoThrow mosquitoHex (id mosquito)])"
    unfolding getAvailableMovementTypes_def set_append Un_iff
    by (blast dest: in_if_list)
  then show ?thesis
  proof cases
    case 1
    then have "MosquitoThrow h x \<in> set [Normal (insect i)]" by (rule in_if_list)
    then show ?thesis by simp
  next
    case 2
    from throw_entry_cases [OF this] show ?thesis by auto
  next
    case 3
    from throw_entry_cases [OF this] show ?thesis by auto
  qed
qed

lemma throw_type_thrower:
  assumes "mt \<in> set (getAvailableMovementTypes s i fromHex)"
    and "mt = PillbugThrow h x \<or> mt = MosquitoThrow h x"
  shows "canPillbugThrowPiece (board s) h fromHex (id i)
         \<and> (\<exists>thrower. getTopInsect (board s) h = Some thrower \<and> id thrower = x
               \<and> player thrower = currentPlayer s
               \<and> (insect thrower = Pillbug
                  \<or> (insect thrower = Mosquito
                      \<and> Pillbug \<in> set (getMosquitoAdjacentInsects (board s) h x))))"
proof (cases "mt = PillbugThrow h x")
  case True
  with assms(1) pillbugThrow_available [of h x s i fromHex] obtain pb where
    "findPillbugThatCanThrow (board s) fromHex (id i) (currentPlayer s) = Some (pb, h)" "id pb = x"
    by blast
  then show ?thesis
    using findPillbugIn_Some [of "board s" fromHex "id i" "currentPlayer s" "board_keys (board s)" pb h]
    by (auto simp: findPillbugThatCanThrow_def)
next
  case False
  with assms(2) have "mt = MosquitoThrow h x" by simp
  with assms(1) mosquitoThrow_available [of h x s i fromHex] obtain mq where
    "findMosquitoThatCanThrow (board s) fromHex (id i) (currentPlayer s) = Some (mq, h)" "id mq = x"
    by blast
  then show ?thesis
    using findMosquitoIn_Some [of "board s" fromHex "id i" "currentPlayer s" "board_keys (board s)" mq h]
    by (auto simp: findMosquitoThatCanThrow_def)
qed

lemma throwUsing_destination:
  "fst (throwUsing h i fromHex toHex s) \<Longrightarrow>
   toHex \<in> set (getPillbugThrowDestinations (board s) h fromHex (id i))"
  by (auto simp: throwUsing_def findPillbugThrowPath_def Let_def list_ex_iff split: if_splits)

lemma touchesHive_neighbor:
  "touchesHive b t mid (Some c) \<Longrightarrow> \<exists>n \<in> set (getNeighbors t). n \<noteq> c \<and> isHexOccupied b n"
  by (auto simp: touchesHive_def list_ex_iff)

definition pb1 :: insect where
  "pb1 = \<lparr>player = P1, insect = Pillbug, id = (P1, Pillbug, 6)\<rparr>"

definition pillbug_game :: game_state where
  "pillbug_game =
     newGame\<lparr>board := [(Hex 0 0, [pb1]), (Hex 1 0, [q2]), (Hex (-1) 0, [a1])],
             queenPlaced := (\<lambda>p. True), turnCount := (\<lambda>p. 2), turn := 4\<rparr>"

lemmas throw_eval =
  findPillbugThatCanThrow_def findMosquitoThatCanThrow_def canPillbugThrowPiece_def
  wouldSplitHive_def splitLoop_Cons getPillbugThrowDestinations_def emptyOrMoving_def
  throwUsing_def findPillbugThrowPath_def canAntReach_def

text \<open>
  C8. A throw that is judged legal, by a pillbug or by a mosquito next to a pillbug:
  the thrown piece is alone on its hex and next to the thrower, removing it does not
  split the hive (the other occupied hexes are connected), and the destination is next
  to the thrower, is not the piece's own hex, has an occupied neighbour other than the
  piece's hex, and is unoccupied or holds only the thrown piece. In a call from the game
  the thrown piece stands on its own hex, so no other hex holds it alone: then the
  destination is unoccupied.
\<close>

theorem legal_throw:
  assumes "mt \<in> set (getAvailableMovementTypes s i fromHex)"
    and "mt = PillbugThrow throwerHex throwerId \<or> mt = MosquitoThrow throwerHex throwerId"
    and "fst (canMoveUsingType mt i fromHex toHex s)"
    and "distinct (board_keys (board s))"
  shows "length (getInsectStack (board s) fromHex) = 1
       \<and> fromHex \<in> set (getNeighbors throwerHex)
       \<and> \<not> wouldSplitHive (board s) fromHex
       \<and> hiveConnected (occupied (board s) - {fromHex})
       \<and> toHex \<in> set (getNeighbors throwerHex)
       \<and> toHex \<noteq> fromHex
       \<and> (\<not> isHexOccupied (board s) toHex \<or> movingInsectOnly (board s) (id i) toHex)
       \<and> ((\<forall>k. movingInsectOnly (board s) (id i) k \<longrightarrow> k = fromHex)
            \<longrightarrow> \<not> isHexOccupied (board s) toHex)
       \<and> (\<exists>n \<in> set (getNeighbors toHex). n \<noteq> fromHex \<and> isHexOccupied (board s) n)
       \<and> (\<exists>thrower. getTopInsect (board s) throwerHex = Some thrower
             \<and> player thrower = currentPlayer s
             \<and> (insect thrower = Pillbug
                \<or> (insect thrower = Mosquito
                    \<and> Pillbug \<in> set (getMosquitoAdjacentInsects (board s) throwerHex
                                      (id thrower)))))"
proof -
  let ?b = "board s"
  from throw_type_thrower [OF assms(1,2)]
  have can: "canPillbugThrowPiece ?b throwerHex fromHex (id i)"
    and thrower: "\<exists>thrower. getTopInsect ?b throwerHex = Some thrower
             \<and> player thrower = currentPlayer s
             \<and> (insect thrower = Pillbug
                \<or> (insect thrower = Mosquito
                    \<and> Pillbug \<in> set (getMosquitoAdjacentInsects ?b throwerHex (id thrower))))"
    by auto
  from can have adj: "fromHex \<in> set (getNeighbors throwerHex)"
    and some: "length (getInsectStack ?b fromHex) \<noteq> 0"
    and few: "\<not> 1 < length (getInsectStack ?b fromHex)"
    and nosplit: "\<not> wouldSplitHive ?b fromHex"
    by (auto simp: canPillbugThrowPiece_def Let_def distance_one split: if_splits)
  from some few have one: "length (getInsectStack ?b fromHex) = 1"
    by linarith
  from one have "0 < length (getInsectStack ?b fromHex)" by simp
  from wouldSplitHive_sound [OF nosplit this assms(4)]
  have conn: "hiveConnected (occupied ?b - {fromHex})" .
  from assms(2,3) have "fst (throwUsing throwerHex i fromHex toHex s)"
    by (auto simp: canMoveUsingType_def)
  then have dest: "toHex \<in> set (getPillbugThrowDestinations ?b throwerHex fromHex (id i))"
    by (rule throwUsing_destination)
  then have t: "toHex \<in> set (getNeighbors throwerHex)" "toHex \<noteq> fromHex"
    "emptyOrMoving ?b (id i) toHex" "touchesHive ?b toHex (id i) (Some fromHex)"
    by (simp_all add: getPillbugThrowDestinations_def)
  from t(3) have weak: "\<not> isHexOccupied ?b toHex \<or> movingInsectOnly ?b (id i) toHex"
    by (auto simp: emptyOrMoving_def occupied_iff_stack)
  with t(2) have free: "(\<forall>k. movingInsectOnly ?b (id i) k \<longrightarrow> k = fromHex)
                          \<longrightarrow> \<not> isHexOccupied ?b toHex"
    by blast
  from t(4) have touch: "\<exists>n \<in> set (getNeighbors toHex). n \<noteq> fromHex \<and> isHexOccupied ?b n"
    by (rule touchesHive_neighbor)
  from one adj nosplit conn t(1,2) weak free touch thrower show ?thesis
    by blast
qed

theorem legal_throw_witness:
  "length (getInsectStack (board pillbug_game) (Hex (-1) 0)) = 1
   \<and> Hex (-1) 0 \<in> set (getNeighbors (Hex 0 0))
   \<and> \<not> wouldSplitHive (board pillbug_game) (Hex (-1) 0)
   \<and> hiveConnected (occupied (board pillbug_game) - {Hex (-1) 0})
   \<and> Hex 0 (-1) \<in> set (getNeighbors (Hex 0 0))
   \<and> Hex 0 (-1) \<noteq> Hex (-1) 0
   \<and> \<not> isHexOccupied (board pillbug_game) (Hex 0 (-1))"
proof -
  have avail: "PillbugThrow (Hex 0 0) (id pb1)
                 \<in> set (getAvailableMovementTypes pillbug_game a1 (Hex (-1) 0))"
    by (simp add: pillbug_game_def newGame_def game_eval throw_eval pb1_def example_pieces)
  have kind: "PillbugThrow (Hex 0 0) (id pb1) = PillbugThrow (Hex 0 0) (id pb1)
              \<or> PillbugThrow (Hex 0 0) (id pb1) = MosquitoThrow (Hex 0 0) (id pb1)"
    by simp
  have legal: "fst (canMoveUsingType (PillbugThrow (Hex 0 0) (id pb1)) a1
                     (Hex (-1) 0) (Hex 0 (-1)) pillbug_game)"
    by (simp add: pillbug_game_def newGame_def game_eval throw_eval pb1_def example_pieces)
  have keys: "distinct (board_keys (board pillbug_game))"
    by (simp add: pillbug_game_def newGame_def board_keys_def)
  have only: "\<forall>k. movingInsectOnly (board pillbug_game) (id a1) k \<longrightarrow> k = Hex (-1) 0"
    by (simp add: pillbug_game_def newGame_def board_eval pb1_def example_pieces)
  from legal_throw [OF avail kind legal keys] only show ?thesis
    by blast
qed

section \<open>One hive after every action\<close>

subsection \<open>Boards stay well formed\<close>

lemma wf_occupied: "wf_board b \<Longrightarrow> occupied b = set (board_keys b)"
proof
  show "occupied b \<subseteq> set (board_keys b)"
    by (auto simp: occupied_def dest: isHexOccupied_key)
next
  assume wf: "wf_board b"
  show "set (board_keys b) \<subseteq> occupied b"
  proof
    fix k assume "k \<in> set (board_keys b)"
    then obtain stack where m: "(k, stack) \<in> set b"
      by (auto simp: board_keys_def)
    with wf have "map_of b k = Some stack" "stack \<noteq> []"
      by (auto simp: wf_board_def board_keys_def list_all_iff)
    then show "k \<in> occupied b"
      by (simp add: occupied_def isHexOccupied_def)
  qed
qed

lemma keys_addInsectToHex:
  "set (board_keys (addInsectToHex b k x)) = insert k (set (board_keys b))"
  by (auto simp: addInsectToHex_def board_keys_def split: if_splits intro: rev_image_eqI)

lemma keys_push_stack:
  "map (fst \<circ> (\<lambda>(k', stack). if k' = k then (k', stack @ [x]) else (k', stack))) b = map fst b"
  by (rule map_cong) auto

lemma wf_addInsectToHex:
  assumes "wf_board b"
  shows "wf_board (addInsectToHex b k x)"
proof (cases "k \<in> set (board_keys b)")
  case True
  with assms show ?thesis
    by (auto simp: wf_board_def addInsectToHex_def board_keys_def list_all_iff keys_push_stack
        split: if_splits)
next
  case False
  with assms show ?thesis
    by (auto simp: wf_board_def addInsectToHex_def board_keys_def)
qed

lemma wf_stack:
  assumes "wf_board b" and "k \<in> set (board_keys b)"
  shows "(k, getInsectStack b k) \<in> set b \<and> getInsectStack b k \<noteq> []"
proof -
  from assms(2) obtain stack where m: "(k, stack) \<in> set b"
    by (auto simp: board_keys_def)
  with assms(1) have "map_of b k = Some stack" "stack \<noteq> []"
    by (auto simp: wf_board_def board_keys_def list_all_iff)
  with m show ?thesis by (simp add: getInsectStack_def)
qed

lemma length_spliceFirst:
  "list_ex (\<lambda>bug. id bug = iid) stack \<Longrightarrow> Suc (length (spliceFirst iid stack)) = length stack"
  by (induction stack) auto

lemma keys_filter_out:
  "map fst (filter (\<lambda>(key, st). key \<noteq> c) b) = filter (\<lambda>key. key \<noteq> c) (map fst b)"
  by (simp add: filter_map comp_def case_prod_unfold)

lemma keys_map_stack:
  "map (fst \<circ> (\<lambda>(key, st). if key = c then (key, stack') else (key, st))) b = map fst b"
  by (rule map_cong) auto

lemma remove_keys:
  assumes "wf_board b" and "list_ex (\<lambda>bug. id bug = iid) (getInsectStack b c)"
  shows "board_keys (removeInsectFromHex b c iid) = remainingWithout b c"
proof -
  let ?stack = "getInsectStack b c"
  from length_spliceFirst [OF assms(2)]
  have len: "Suc (length (spliceFirst iid ?stack)) = length ?stack" .
  show ?thesis
  proof (cases "length (spliceFirst iid ?stack) = 0")
    case True
    with len have one: "length ?stack = 1" by simp
    have "filter (\<lambda>key. if key = c then 1 < length (getInsectStack b key) else True) (map fst b)
            = filter (\<lambda>key. key \<noteq> c) (map fst b)"
      by (rule filter_cong) (use one in auto)
    with True assms(2) show ?thesis
      by (simp add: removeInsectFromHex_def remainingWithout_def board_keys_def Let_def
          keys_filter_out)
  next
    case False
    then have "0 < length (spliceFirst iid ?stack)" by simp
    with len have more: "1 < length ?stack" by linarith
    have "filter (\<lambda>key. if key = c then 1 < length (getInsectStack b key) else True) (map fst b)
            = map fst b"
      using more by (simp add: filter_id_conv)
    with False assms(2) show ?thesis
      by (simp add: removeInsectFromHex_def remainingWithout_def board_keys_def Let_def
          keys_map_stack)
  qed
qed

lemma wf_removeInsectFromHex:
  assumes "wf_board b"
  shows "wf_board (removeInsectFromHex b c iid)"
proof (cases "list_ex (\<lambda>bug. id bug = iid) (getInsectStack b c)")
  case False
  with assms show ?thesis by (simp add: removeInsectFromHex_def)
next
  case True
  show ?thesis
  proof (cases "length (spliceFirst iid (getInsectStack b c)) = 0")
    case z: True
    from assms have "distinct (filter (\<lambda>key. key \<noteq> c) (map fst b))"
      by (simp add: wf_board_def board_keys_def)
    with assms True z show ?thesis
      by (auto simp: wf_board_def removeInsectFromHex_def board_keys_def Let_def
          keys_filter_out list_all_iff)
  next
    case nz: False
    with assms True show ?thesis
      by (auto simp: wf_board_def removeInsectFromHex_def board_keys_def Let_def
          keys_map_stack list_all_iff split: if_splits)
  qed
qed

lemma remaining_subset: "set (remainingWithout b c) \<subseteq> set (board_keys b)"
  by (auto simp: remainingWithout_def)

lemma remaining_others:
  "k \<in> set (board_keys b) \<Longrightarrow> k \<noteq> c \<Longrightarrow> k \<in> set (remainingWithout b c)"
  by (simp add: remainingWithout_def)

lemma isHiveConnectedWithout_sound:
  assumes "isHiveConnectedWithout b c" and "distinct (board_keys b)"
  shows "hiveConnected (set (remainingWithout b c))"
proof (cases "length (remainingWithout b c) \<le> 1")
  case True
  then have "\<And>x y. x \<in> set (remainingWithout b c) \<Longrightarrow> y \<in> set (remainingWithout b c) \<Longrightarrow> x = y"
    by (cases "remainingWithout b c") auto
  then show ?thesis
    unfolding hiveConnected_def by (blast intro: connected_self)
next
  case False
  then obtain first others where r: "remainingWithout b c = first # others"
    by (cases "remainingWithout b c") auto
  with assms(1) False
  have len: "length (connectedLoop (remainingWithout b c) [first] [first])
               = length (remainingWithout b c)"
    by (simp add: isHiveConnectedWithout_def Let_def)
  from assms(2) have d: "distinct (remainingWithout b c)"
    by (simp add: remainingWithout_def)
  from r have "first \<in> set (remainingWithout b c)" by simp
  from full_visit_connected [OF d this len] show ?thesis .
qed

lemma findInsectHex_Some:
  "findInsectHex b iid = Some c \<Longrightarrow>
   c \<in> set (board_keys b) \<and> list_ex (\<lambda>bug. id bug = iid) (getInsectStack b c)"
  by (auto simp: findInsectHex_def find_Some_iff)

subsection \<open>Where a validated move can land\<close>

lemma not_own_neighbor: "f \<notin> set (getNeighbors f)"
  by (cases f) (simp add: getNeighbors_def directions_def)

text \<open>On a board whose only occupied hex is the origin, nothing touches the hive.\<close>

lemma alone_touchesHive:
  "\<forall>k. isHexOccupied b k \<longrightarrow> k = f \<Longrightarrow> \<not> touchesHive b n mid (Some f)"
  by (auto simp: touchesHive_def list_ex_iff)

lemma alone_walking:
  "\<forall>k. isHexOccupied b k \<longrightarrow> k = f \<Longrightarrow> getWalkingNeighbors b f mid = []"
  by (simp add: getWalkingNeighbors_def filter_empty_conv alone_touchesHive)

lemma alone_neighbor_stack:
  assumes "\<forall>k. isHexOccupied b k \<longrightarrow> k = f" and "n \<in> set (getNeighbors f)"
  shows "getInsectStack b n = []"
proof -
  from assms(2) not_own_neighbor [of f] have "n \<noteq> f" by auto
  with assms(1) have "\<not> isHexOccupied b n" by blast
  then show ?thesis by (simp add: occupied_iff_stack)
qed

lemma one_step_adjacent:
  "success (findQueenPath b f t mid) \<Longrightarrow> t \<in> set (getNeighbors f)"
  "success (findBeetlePath b f t mid) \<Longrightarrow> t \<in> set (getNeighbors f)"
  "success (findPillbugPath b f t mid) \<Longrightarrow> t \<in> set (getNeighbors f)"
  by (auto simp: findQueenPath_def findBeetlePath_def findPillbugPath_def distance_one
      split: if_splits)

lemma alone_ant:
  assumes "\<forall>k. isHexOccupied b k \<longrightarrow> k = f" and "success (findAntPath b f t mid)"
  shows "t = f"
proof (rule ccontr)
  assume "t \<noteq> f"
  with assms(1) have "antLoop b t mid [(f, [f])] [f] = None"
    by (simp add: alone_walking)
  with assms(2) show False
    by (simp add: findAntPath_success_iff)
qed

lemma spiderLoop_Nil [simp]: "spiderLoop b t mid [] visited validPaths = validPaths"
  by (subst spiderLoop.simps) simp

lemma alone_spider:
  assumes "\<forall>k. isHexOccupied b k \<longrightarrow> k = f"
  shows "\<not> success (findSpiderPath b f t mid)"
proof -
  from assms have "spiderLoop b t mid [(f, [f])] [(f, 0)] [] = []"
    by (subst spiderLoop.simps) (simp add: alone_walking)
  then show ?thesis
    by (simp add: findSpiderPath_def Let_def)
qed

lemma alone_hopper:
  assumes "\<forall>k. isHexOccupied b k \<longrightarrow> k = f"
  shows "\<not> success (findHopperPath b f t mid)"
proof
  assume "success (findHopperPath b f t mid)"
  then obtain d where d: "d \<in> set directions" "findHopperLanding b f d mid = Some t"
    unfolding findHopperPath_def by (blast dest: hopperDirections_success)
  from findHopperLanding_ray [OF d(2)] have "isHexOccupied b (ray f d 1)"
    by auto
  with assms have "ray f d 1 = f" by blast
  with ray_neq_origin [OF d(1), of 1 f] show False by simp
qed

lemma ladybugLoop_Nil [simp]: "ladybugLoop b f t mid [] visited validPaths = validPaths"
  by (subst ladybugLoop.simps) simp

lemma alone_ladybug:
  assumes "\<forall>k. isHexOccupied b k \<longrightarrow> k = f"
  shows "\<not> success (findLadybugPath b f t mid)"
proof -
  have "filter (occupiedByOther b mid) (getNeighbors f) = []"
    using alone_neighbor_stack [OF assms]
    by (simp add: filter_empty_conv occupiedByOther_def)
  then have "ladybugLoop b f t mid [(f, [f], 0)] [(f, 0)] [] = []"
    by (subst ladybugLoop.simps)
       (simp add: ladybugNeighbors_def getLadybugStepOneNeighbors_def)
  then show ?thesis
    by (simp add: findLadybugPath_def)
qed

lemma mosquitoCollect_empty:
  "\<forall>n \<in> set ns. getInsectStack b n = [] \<Longrightarrow> mosquitoCollect b mid ns types = types"
  by (induction ns arbitrary: types) simp_all

lemma alone_mosquito:
  assumes "\<forall>k. isHexOccupied b k \<longrightarrow> k = f"
  shows "\<not> success (findMosquitoPath b f t mid)"
proof -
  from alone_neighbor_stack [OF assms]
  have "getMosquitoAdjacentInsects b f mid = []"
    by (simp add: getMosquitoAdjacentInsects_def mosquitoCollect_empty)
  then show ?thesis
    by (simp add: findMosquitoPath_def)
qed

lemma alone_reach:
  assumes "\<forall>k. isHexOccupied (board s) k \<longrightarrow> k = f" and "fst (canInsectReach i f t s)"
  shows "t = f \<or> t \<in> set (getNeighbors f)"
proof (cases "insect i")
  case Queen
  with assms(2) show ?thesis
    by (auto simp: canInsectReach_def canQueenReach_def storePath_def dest: one_step_adjacent)
next
  case Ant
  with assms show ?thesis
    by (auto simp: canInsectReach_def canAntReach_def storePath_def dest: alone_ant)
next
  case Beetle
  with assms(2) show ?thesis
    by (auto simp: canInsectReach_def canBeetleReach_def storePath_def dest: one_step_adjacent)
next
  case Hopper
  with assms show ?thesis
    by (auto simp: canInsectReach_def canHopperReach_def storePath_def dest: alone_hopper)
next
  case Spider
  with assms show ?thesis
    by (auto simp: canInsectReach_def canSpiderReach_def storePath_def dest: alone_spider)
next
  case Mosquito
  with assms show ?thesis
    by (auto simp: canInsectReach_def canMosquitoReach_def storePath_def dest: alone_mosquito)
next
  case Ladybug
  with assms show ?thesis
    by (auto simp: canInsectReach_def canLadybugReach_def storePath_def dest: alone_ladybug)
next
  case Pillbug
  with assms(2) show ?thesis
    by (auto simp: canInsectReach_def canPillbugReach_def storePath_def dest: one_step_adjacent)
qed

text \<open>The answer of a movement type depends on the board alone.\<close>

lemma canMoveUsingType_path:
  "fst (canMoveUsingType mt i f t (s\<lparr>currentPath := p\<rparr>)) = fst (canMoveUsingType mt i f t s)"
proof -
  have r: "canInsectReach i f t (s\<lparr>currentPath := p\<rparr>) = canInsectReach i f t s"
    by (cases "insect i")
       (simp_all add: canInsectReach_def canQueenReach_def canAntReach_def canBeetleReach_def
          canHopperReach_def canSpiderReach_def canMosquitoReach_def canLadybugReach_def
          canPillbugReach_def storePath_def)
  have n: "fst (canMoveNormally i f t (s\<lparr>currentPath := p\<rparr>)) = fst (canMoveNormally i f t s)"
    by (auto simp: canMoveNormally_def Let_def r)
  have th: "fst (throwUsing h i f t (s\<lparr>currentPath := p\<rparr>)) = fst (throwUsing h i f t s)" for h
    by (simp add: throwUsing_def Let_def)
  show ?thesis
    by (cases mt) (simp_all add: canMoveUsingType_def n th)
qed

lemma canMoveUsingType_sameGame:
  "sameGame s s' \<Longrightarrow> fst (canMoveUsingType mt i f t s') = fst (canMoveUsingType mt i f t s)"
  unfolding sameGame_def
  using canMoveUsingType_path [where s = s and p = "currentPath s'" and mt = mt and i = i
      and f = f and t = t]
  by simp

lemma tryMovementTypes_some:
  "fst (tryMovementTypes mts i f t s) \<Longrightarrow> \<exists>mt \<in> set mts. fst (canMoveUsingType mt i f t s)"
proof (induction mts arbitrary: s)
  case Nil
  then show ?case by simp
next
  case (Cons mt mts)
  obtain ok s' where r: "canMoveUsingType mt i f t s = (ok, s')"
    by (cases "canMoveUsingType mt i f t s")
  show ?case
  proof (cases ok)
    case True
    with r show ?thesis by simp
  next
    case False
    with r Cons.prems have "fst (tryMovementTypes mts i f t s')" by simp
    from Cons.IH [OF this] obtain m where m: "m \<in> set mts" "fst (canMoveUsingType m i f t s')"
      by blast
    from canMoveUsingType_same [of s mt i f t] r have "sameGame s s'" by simp
    from canMoveUsingType_sameGame [OF this] m show ?thesis by auto
  qed
qed

lemma valid_move_target:
  assumes "fst (isValidMove i f t s)"
  shows "(\<exists>n \<in> set (getNeighbors t). n \<noteq> f \<and> isHexOccupied (board s) n)
         \<or> (length (board s) \<le> 1 \<and> fst (canInsectReach i f t s))"
proof -
  from assms obtain mt where mt: "fst (canMoveUsingType mt i f t s)"
    unfolding isValidMove_def by (blast dest: tryMovementTypes_some)
  show ?thesis
  proof (cases mt)
    case (Normal k)
    with mt have "fst (canMoveNormally i f t s)"
      by (simp add: canMoveUsingType_def)
    then show ?thesis
      by (auto simp: canMoveNormally_def Let_def list_ex_iff not_less split: if_splits)
  next
    case (PillbugThrow h x)
    with mt have "fst (throwUsing h i f t s)"
      by (simp add: canMoveUsingType_def)
    from throwUsing_destination [OF this]
    have "touchesHive (board s) t (id i) (Some f)"
      by (simp add: getPillbugThrowDestinations_def)
    from touchesHive_neighbor [OF this] show ?thesis by blast
  next
    case (MosquitoThrow h x)
    with mt have "fst (throwUsing h i f t s)"
      by (simp add: canMoveUsingType_def)
    from throwUsing_destination [OF this]
    have "touchesHive (board s) t (id i) (Some f)"
      by (simp add: getPillbugThrowDestinations_def)
    from touchesHive_neighbor [OF this] show ?thesis by blast
  qed
qed

subsection \<open>The hive after a committed action\<close>

declare board_after [simp]

lemma topOwnedBy_occupied: "topOwnedBy b p n \<Longrightarrow> isHexOccupied b n"
  by (auto simp: topOwnedBy_def getTopInsect_def isHexOccupied_def split: option.splits if_splits)

lemma placeInsect_board:
  "placeInsect tr h k now s = (True, s') \<Longrightarrow>
   board s' = addInsectToHex (board s) h
                \<lparr>player = currentPlayer s, insect = k, id = (currentPlayer s, k, now)\<rparr>"
  by (auto simp: placeInsect_def Let_def split: if_splits)

lemma placement_touches:
  assumes "wf_board b" and "b \<noteq> []" and "canPlaceInsect b p h"
  shows "\<exists>n \<in> occupied b. n \<in> set (getNeighbors h)"
proof -
  from wf_board_nonempty_top [OF assms(1,2)]
  have "\<not> ((\<forall>k. \<not> topOwnedBy b p k) \<and> (\<forall>k. \<not> topOwnedBy b (opponent p) k))"
    by (cases p) (auto simp: opponent_def)
  with assms(3) obtain n x where "n \<in> set (getNeighbors h)" "topOwnedBy b x n"
    unfolding canPlaceInsect_char by (auto split: if_splits)
  then show ?thesis
    by (auto simp: occupied_def dest: topOwnedBy_occupied)
qed

lemma placement_keeps_hive:
  assumes "wf_board (board s)" and "hiveConnected (occupied (board s))"
    and "placeInsect tr h k now s = (True, s')"
  shows "oneHive (board s') \<and> wf_board (board s')"
proof -
  let ?b = "board s"
  let ?x = "\<lparr>player = currentPlayer s, insect = k, id = (currentPlayer s, k, now)\<rparr>"
  from placeInsect_board [OF assms(3)] have b': "board s' = addInsectToHex ?b h ?x" .
  from assms(1) have wf': "wf_board (board s')"
    unfolding b' by (rule wf_addInsectToHex)
  from wf_occupied [OF wf'] wf_occupied [OF assms(1)]
  have occ: "occupied (board s') = insert h (occupied ?b)"
    by (simp add: b' keys_addInsectToHex)
  from placeInsect_cases [OF assms(3)]
  have "?b = [] \<or> canPlaceInsect ?b (currentPlayer s) h" by simp
  then have "occupied ?b = {} \<or> (\<exists>n \<in> occupied ?b. n \<in> set (getNeighbors h))"
  proof
    assume "?b = []"
    then show ?thesis by (simp add: occupied_def isHexOccupied_def)
  next
    assume c: "canPlaceInsect ?b (currentPlayer s) h"
    show ?thesis
    proof (cases "?b = []")
      case True
      then show ?thesis by (simp add: occupied_def isHexOccupied_def)
    next
      case False
      from placement_touches [OF assms(1) False c] show ?thesis by simp
    qed
  qed
  with hiveConnected_insert [OF assms(2), of h]
  have "hiveConnected (insert h (occupied ?b))" by blast
  with occ wf' show ?thesis by (simp add: oneHive_def)
qed

lemma single_key_alone:
  assumes "length b \<le> 1" and "c \<in> set (board_keys b)"
  shows "board_keys b = [c]"
  using assms by (cases b) (auto simp: board_keys_def)

lemma move_keeps_hive:
  assumes "wf_board (board s)"
    and "moveInsect tr i t now s = (True, s'')"
  shows "oneHive (board s'') \<and> wf_board (board s'')"
proof -
  let ?b = "board s"
  from moveInsect_cases [OF assms(2)] obtain c s1 where
    f: "findInsectHex ?b (id i) = Some c"
    and v: "isValidMove i c t s = (True, s1)"
    and conn: "isHiveConnectedWithout ?b c"
    and s'': "s'' = endTurn (checkWinCondition (recordMove (insect i) (Some c) t now
                 (s1\<lparr>board := addInsectToHex (removeInsectFromHex ?b c (id i)) t i\<rparr>)))"
    by auto
  let ?r = "removeInsectFromHex ?b c (id i)"
  from s'' have b'': "board s'' = addInsectToHex ?r t i" by simp
  from findInsectHex_Some [OF f] have ckey: "c \<in> set (board_keys ?b)"
    and has: "list_ex (\<lambda>bug. id bug = id i) (getInsectStack ?b c)" by auto
  from assms(1) have wfr: "wf_board ?r" by (rule wf_removeInsectFromHex)
  then have wf'': "wf_board (board s'')"
    unfolding b'' by (rule wf_addInsectToHex)
  from remove_keys [OF assms(1) has] have keys: "board_keys ?r = remainingWithout ?b c" .
  from wf_occupied [OF wf''] have occ: "occupied (board s'') = insert t (set (remainingWithout ?b c))"
    by (simp add: b'' keys_addInsectToHex keys)
  from assms(1) have "distinct (board_keys ?b)" by (simp add: wf_board_def)
  from isHiveConnectedWithout_sound [OF conn this]
  have hive: "hiveConnected (set (remainingWithout ?b c))" .
  from v have "fst (isValidMove i c t s)" by simp
  from valid_move_target [OF this]
  have "set (remainingWithout ?b c) = {} \<or> t \<in> set (remainingWithout ?b c)
        \<or> (\<exists>n \<in> set (remainingWithout ?b c). n \<in> set (getNeighbors t))"
  proof
    assume "\<exists>n \<in> set (getNeighbors t). n \<noteq> c \<and> isHexOccupied ?b n"
    then obtain n where n: "n \<in> set (getNeighbors t)" "n \<noteq> c" "isHexOccupied ?b n" by blast
    from n(3) have "n \<in> set (board_keys ?b)" by (rule isHexOccupied_key)
    from this n(2) have "n \<in> set (remainingWithout ?b c)" by (rule remaining_others)
    with n(1) show ?thesis by blast
  next
    assume a: "length ?b \<le> 1 \<and> fst (canInsectReach i c t s)"
    with ckey have only: "board_keys ?b = [c]" by (simp add: single_key_alone)
    then have "\<forall>k. isHexOccupied ?b k \<longrightarrow> k = c"
      by (auto dest: isHexOccupied_key)
    from alone_reach [OF this] a have t: "t = c \<or> t \<in> set (getNeighbors c)" by blast
    from remaining_subset [of ?b c] only have sub: "set (remainingWithout ?b c) \<subseteq> {c}" by simp
    show ?thesis
    proof (cases "remainingWithout ?b c")
      case Nil
      then show ?thesis by simp
    next
      case (Cons x xs)
      then have "x \<in> set (remainingWithout ?b c)" by simp
      with sub have "c \<in> set (remainingWithout ?b c)" by blast
      with t show ?thesis by (auto dest: neighbor_sym)
    qed
  qed
  from hiveConnected_insert [OF hive this] occ wf'' show ?thesis
    by (simp add: oneHive_def)
qed

text \<open>
  C1. Take a well-formed board (every key once, no empty stack) whose occupied hexes
  are connected: the empty board before the first placement, or one hive. After a
  placement accepted by \<open>placeInsect\<close>, and after a move committed by \<open>moveInsect\<close>, the
  occupied hexes are not empty and every two of them are connected by a chain of
  adjacent occupied hexes; the board is well formed again.
\<close>

theorem one_hive_preserved:
  assumes "wf_board (board s)" and "hiveConnected (occupied (board s))"
  shows "(placeInsect tournamentRules h k now s = (True, s')
            \<longrightarrow> oneHive (board s') \<and> wf_board (board s'))
       \<and> (moveInsect tournamentRules i targetHex now s = (True, s'')
            \<longrightarrow> oneHive (board s'') \<and> wf_board (board s''))"
  using placement_keeps_hive [OF assms] move_keeps_hive [OF assms(1)] by blast

theorem one_hive_preserved_witness:
  "oneHive (board (snd (placeInsect False (Hex (-1) 0) Ant 7 two_queens)))
   \<and> oneHive (board (snd (moveInsect False q1 (Hex 0 1) 7 two_queens)))"
proof -
  have wf: "wf_board (board two_queens)"
    by (simp add: two_queens_def newGame_def wf_board_def board_keys_def)
  have "occupied (board two_queens) = insert (Hex 1 0) (insert (Hex 0 0) {})"
    unfolding wf_occupied [OF wf] by (auto simp: two_queens_def newGame_def board_keys_def)
  moreover have "hiveConnected (insert (Hex 1 0) (insert (Hex 0 0) {}))"
  proof (rule hiveConnected_insert)
    show "hiveConnected (insert (Hex 0 0) {})"
      by (rule hiveConnected_insert) (simp_all add: hiveConnected_def)
    show "insert (Hex 0 0) {} = {} \<or> Hex 1 0 \<in> insert (Hex 0 0) {}
          \<or> (\<exists>n \<in> insert (Hex 0 0) {}. n \<in> set (getNeighbors (Hex 1 0)))"
      by (simp add: getNeighbors_def directions_def)
  qed
  ultimately have hive: "hiveConnected (occupied (board two_queens))" by simp
  have p: "placeInsect False (Hex (-1) 0) Ant 7 two_queens
             = (True, snd (placeInsect False (Hex (-1) 0) Ant 7 two_queens))"
    by (simp add: game_eval two_queens_def newGame_def example_pieces)
  have m: "moveInsect False q1 (Hex 0 1) 7 two_queens
             = (True, snd (moveInsect False q1 (Hex 0 1) 7 two_queens))"
    by (simp add: game_eval two_queens_def newGame_def example_pieces)
  from one_hive_preserved [OF wf hive, of False "Hex (-1) 0" Ant 7
         "snd (placeInsect False (Hex (-1) 0) Ant 7 two_queens)" q1 "Hex 0 1"
         "snd (moveInsect False q1 (Hex 0 1) 7 two_queens)"] p m
  show ?thesis by blast
qed

section \<open>Picking up a piece\<close>

text \<open>
  \<open>moveInsect\<close> is called from one place, \<open>handleDragEnd\<close>, and \<open>isValidMove\<close>
  from there and from \<open>updateDropZoneHighlight\<close>; all of them are handed
  \<open>dragState.sourceData\<close>, which for a drag from the board is set by
  \<open>handleHexagonMouseDown\<close> (and by \<open>handleHexagonTouchStart\<close>, which makes the same
  choice).

  \<open>handleHexagonMouseDown\<close>: the piece handed to the drag, or nothing when the hex is
  empty (the board is panned) or its top piece has no movement type. \<open>selectAndDrag\<close>
  may still decline (a drag is under way, no element under the pointer); then nothing
  is handed over either.
\<close>

definition handleHexagonMouseDown :: "hex \<Rightarrow> game_state \<Rightarrow> insect option" where
  "handleHexagonMouseDown h s =
     (case getTopInsect (board s) h of
        None \<Rightarrow> None
      | Some topInsect \<Rightarrow>
          (let movementTypes = getAvailableMovementTypes s topInsect h
           in if 0 < length movementTypes then Some topInsect else None))"

text \<open>
  \<open>updateDropZoneHighlight\<close> for a drag from the board, over the hex \<open>h\<close>: the piece
  is looked up by its id and the move validated, which stores the path for display.
\<close>

definition updateDropZoneHighlight :: "insect \<Rightarrow> hex \<Rightarrow> game_state \<Rightarrow> bool \<times> game_state" where
  "updateDropZoneHighlight sourceData h s =
     (case findInsectHex (board s) (id sourceData) of
        None \<Rightarrow> (False, s)
      | Some fromHex \<Rightarrow> isValidMove sourceData fromHex h s)"

text \<open>\<open>handleDragEnd\<close> for a drag from the board, released over the hex \<open>h\<close>.\<close>

definition handleDragEnd :: "bool \<Rightarrow> insect \<Rightarrow> hex \<Rightarrow> nat \<Rightarrow> game_state \<Rightarrow> bool \<times> game_state" where
  "handleDragEnd tournamentRules sourceData h now s = moveInsect tournamentRules sourceData h now s"

text \<open>
  A whole drag: the pointer goes down on the hex \<open>h\<close>, passes over the hexes \<open>over\<close>
  and is released on \<open>targetHex\<close>.
\<close>

definition dragFromBoard ::
  "bool \<Rightarrow> hex \<Rightarrow> hex list \<Rightarrow> hex \<Rightarrow> nat \<Rightarrow> game_state \<Rightarrow> bool \<times> game_state" where
  "dragFromBoard tournamentRules h over targetHex now s =
     (case handleHexagonMouseDown h s of
        None \<Rightarrow> (False, s)
      | Some sourceData \<Rightarrow>
          handleDragEnd tournamentRules sourceData targetHex now
            (fold (\<lambda>hex s'. snd (updateDropZoneHighlight sourceData hex s')) over s))"

subsection \<open>The top piece of a stack\<close>

lemma updateDropZoneHighlight_board:
  "board (snd (updateDropZoneHighlight i hex s)) = board s"
proof (cases "findInsectHex (board s) (id i)")
  case None
  then show ?thesis by (simp add: updateDropZoneHighlight_def)
next
  case (Some f)
  from isValidMove_same [of s i f hex]
  have "board (snd (isValidMove i f hex s)) = board s"
    by (rule sameGame_fields [THEN conjunct1])
  with Some show ?thesis by (simp add: updateDropZoneHighlight_def)
qed

lemma hover_board:
  "board (fold (\<lambda>hex s'. snd (updateDropZoneHighlight i hex s')) over s) = board s"
  by (induction over arbitrary: s) (simp_all add: updateDropZoneHighlight_board)

lemma ids_one_hex:
  "distinct (map id (concat (map snd b))) \<Longrightarrow> (y, sy) \<in> set b \<Longrightarrow> (h, sh) \<in> set b \<Longrightarrow>
   x \<in> set sy \<Longrightarrow> x' \<in> set sh \<Longrightarrow> id x = id x' \<Longrightarrow> y = h"
proof (induction b)
  case Nil
  then show ?case by simp
next
  case (Cons a b)
  obtain k0 s0 where a: "a = (k0, s0)" by (cases a)
  from Cons.prems(1) have d: "distinct (map id (concat (map snd b)))"
    and disj: "id ` set s0 \<inter> id ` (\<Union>st \<in> set (map snd b). set st) = {}"
    by (auto simp: a)
  show ?case
  proof (cases "(y, sy) = a")
    case y: True
    show ?thesis
    proof (cases "(h, sh) = a")
      case True
      with y show ?thesis by (metis prod.inject)
    next
      case False
      with Cons.prems(3) have "(h, sh) \<in> set b" by simp
      with Cons.prems(5) have "id x' \<in> id ` (\<Union>st \<in> set (map snd b). set st)"
        by force
      moreover from y a Cons.prems(4) have "id x \<in> id ` set s0" by auto
      ultimately show ?thesis using disj Cons.prems(6) by auto
    qed
  next
    case y: False
    with Cons.prems(2) have yb: "(y, sy) \<in> set b" by simp
    show ?thesis
    proof (cases "(h, sh) = a")
      case True
      from yb Cons.prems(4) have "id x \<in> id ` (\<Union>st \<in> set (map snd b). set st)"
        by force
      moreover from True a Cons.prems(5) have "id x' \<in> id ` set s0" by auto
      ultimately show ?thesis using disj Cons.prems(6) by auto
    next
      case False
      with Cons.prems(3) have "(h, sh) \<in> set b" by simp
      from Cons.IH [OF d yb this Cons.prems(4,5,6)] show ?thesis .
    qed
  qed
qed

lemma ids_in_stack:
  "distinct (map id (concat (map snd b))) \<Longrightarrow> (h, sh) \<in> set b \<Longrightarrow> distinct (map id sh)"
  by (induction b) auto

lemma spliceFirst_last:
  "distinct (map id st) \<Longrightarrow> st \<noteq> [] \<Longrightarrow> spliceFirst (id (last st)) st = butlast st"
proof (induction st)
  case Nil
  then show ?case by simp
next
  case (Cons a st)
  show ?case
  proof (cases "st = []")
    case True
    then show ?thesis by simp
  next
    case False
    from Cons.prems(1) have d: "distinct (map id st)" and a: "id a \<notin> id ` set st"
      by simp_all
    from False have "last st \<in> set st" by (rule last_in_set)
    with a have "id a \<noteq> id (last st)" by blast
    with Cons.IH [OF d False] False show ?thesis by simp
  qed
qed

lemma find_only:
  "x \<in> set xs \<Longrightarrow> P x \<Longrightarrow> \<forall>y \<in> set xs. P y \<longrightarrow> y = x \<Longrightarrow> find P xs = Some x"
proof (induction xs)
  case Nil
  then show ?case by simp
next
  case (Cons a xs)
  show ?case
  proof (cases "P a")
    case True
    with Cons.prems(3) have "a = x" by simp
    with True show ?thesis by simp
  next
    case False
    with Cons.prems(1,2) have x: "x \<in> set xs" by auto
    from Cons.prems(3) have "\<forall>y \<in> set xs. P y \<longrightarrow> y = x" by simp
    with x Cons.prems(2) have "find P xs = Some x" by (rule Cons.IH)
    with False show ?thesis by simp
  qed
qed

lemma top_stack:
  "getTopInsect b h = Some i \<Longrightarrow>
   getInsectStack b h \<noteq> [] \<and> last (getInsectStack b h) = i \<and> (h, getInsectStack b h) \<in> set b"
  by (auto simp: getTopInsect_def getInsectStack_def split: option.splits if_splits
      dest: map_of_SomeD)

lemma top_findInsectHex:
  assumes "wf_board b" and "distinct (map id (concat (map snd b)))"
    and "getTopInsect b h = Some i"
  shows "findInsectHex b (id i) = Some h"
proof -
  let ?P = "\<lambda>hexKey. list_ex (\<lambda>bug. id bug = id i) (getInsectStack b hexKey)"
  from top_stack [OF assms(3)]
  have ne: "getInsectStack b h \<noteq> []" and l: "last (getInsectStack b h) = i"
    and m: "(h, getInsectStack b h) \<in> set b" by simp_all
  from ne l have i: "i \<in> set (getInsectStack b h)" by (metis last_in_set)
  from m have hk: "h \<in> set (board_keys b)" by (force simp: board_keys_def)
  from i have Ph: "?P h" by (auto simp: list_ex_iff)
  have "find ?P (board_keys b) = Some h"
  proof (rule find_only [where P = ?P, OF hk Ph], intro ballI impI)
    fix y assume y: "y \<in> set (board_keys b)" and Py: "?P y"
    from wf_stack [OF assms(1) y] have my: "(y, getInsectStack b y) \<in> set b" by simp
    from Py obtain bug where "bug \<in> set (getInsectStack b y)" "id bug = id i"
      by (auto simp: list_ex_iff)
    from ids_one_hex [OF assms(2) my m this(1) i this(2)] show "y = h" .
  qed
  then show ?thesis by (simp add: findInsectHex_def)
qed

lemma map_of_filter_key:
  "map_of (filter (\<lambda>(key, st). key \<noteq> c) b) k = (if k = c then None else map_of b k)"
  by (induction b) auto

lemma map_of_set_stack:
  "map_of (map (\<lambda>(key, st). if key = c then (key, stack') else (key, st)) b) k =
     (if k = c then map_option (\<lambda>st. stack') (map_of b k) else map_of b k)"
  by (induction b) auto

lemma stack_after_remove:
  assumes "list_ex (\<lambda>bug. id bug = iid) (getInsectStack b c)"
  shows "getInsectStack (removeInsectFromHex b c iid) k =
           (if k = c then spliceFirst iid (getInsectStack b c) else getInsectStack b k)"
proof -
  from assms obtain st where "map_of b c = Some st"
    by (auto simp: getInsectStack_def split: option.splits)
  with assms show ?thesis
    by (simp add: removeInsectFromHex_def Let_def getInsectStack_def map_of_filter_key
        map_of_set_stack)
qed

lemma map_of_push_stack:
  "map_of (map (\<lambda>(k', stack). if k' = t then (k', stack @ [x]) else (k', stack)) b) k =
     (if k = t then map_option (\<lambda>st. st @ [x]) (map_of b k) else map_of b k)"
  by (induction b) auto

lemma stack_after_add:
  "getInsectStack (addInsectToHex b t x) k =
     (if k = t then getInsectStack b t @ [x] else getInsectStack b k)"
proof (cases "t \<in> set (board_keys b)")
  case True
  then obtain st where "map_of b t = Some st"
    by (auto simp: board_keys_def dest!: weak_map_of_SomeI)
  with True show ?thesis
    by (simp add: addInsectToHex_def getInsectStack_def map_of_push_stack)
next
  case False
  then have "map_of b t = None"
    by (simp add: board_keys_def map_of_eq_None_iff)
  with False show ?thesis
    by (auto simp: addInsectToHex_def getInsectStack_def map_add_def split: option.splits)
qed

lemma top_moved_stacks:
  assumes wf: "wf_board (board s)" and ids: "distinct (map id (concat (map snd (board s))))"
    and top: "getTopInsect (board s) h = Some i"
    and mv: "moveInsect tr i t now s = (True, s')"
  shows "getInsectStack (board s') k =
           (if k = h then butlast (getInsectStack (board s) k) else getInsectStack (board s) k)
           @ (if k = t then [i] else [])"
proof -
  let ?b = "board s"
  from top_findInsectHex [OF wf ids top] have f: "findInsectHex ?b (id i) = Some h" .
  from moveInsect_cases [OF mv] f obtain s1 where
    s': "s' = endTurn (checkWinCondition (recordMove (insect i) (Some h) t now
                 (s1\<lparr>board := addInsectToHex (removeInsectFromHex ?b h (id i)) t i\<rparr>)))"
    by auto
  then have b': "board s' = addInsectToHex (removeInsectFromHex ?b h (id i)) t i"
    by simp
  from top_stack [OF top]
  have ne: "getInsectStack ?b h \<noteq> []" and l: "last (getInsectStack ?b h) = i"
    and m: "(h, getInsectStack ?b h) \<in> set ?b" by simp_all
  from ids_in_stack [OF ids m] have "distinct (map id (getInsectStack ?b h))" .
  from spliceFirst_last [OF this ne] l
  have sp: "spliceFirst (id i) (getInsectStack ?b h) = butlast (getInsectStack ?b h)"
    by simp
  from ne l have "i \<in> set (getInsectStack ?b h)" by (metis last_in_set)
  then have ex: "list_ex (\<lambda>bug. id bug = id i) (getInsectStack ?b h)"
    by (auto simp: list_ex_iff)
  show ?thesis
    unfolding b' by (simp add: stack_after_add stack_after_remove [OF ex] sp)
qed

lemma top_not_covered:
  assumes ids: "distinct (map id (concat (map snd b)))"
    and top: "getTopInsect b h = Some i"
  shows "i \<notin> set (butlast (getInsectStack b k))"
proof
  let ?st = "getInsectStack b h"
  assume c: "i \<in> set (butlast (getInsectStack b k))"
  then have ik: "i \<in> set (getInsectStack b k)" by (rule in_set_butlastD)
  then have mk: "(k, getInsectStack b k) \<in> set b"
    by (cases "map_of b k") (auto simp: getInsectStack_def dest: map_of_SomeD)
  from top_stack [OF top]
  have ne: "?st \<noteq> []" and l: "last ?st = i" and m: "(h, ?st) \<in> set b" by simp_all
  from ne l have ih: "i \<in> set ?st" by (metis last_in_set)
  from ids_one_hex [OF ids mk m ik ih] have kh: "k = h" by simp
  from ids_in_stack [OF ids m] have d: "distinct ?st"
    by (simp add: distinct_map)
  have "distinct (butlast ?st @ [last ?st])"
    unfolding append_butlast_last_id [OF ne] by (rule d)
  then have "last ?st \<notin> set (butlast ?st)"
    by (simp del: append_butlast_last_id)
  with c kh l show False by simp
qed

subsection \<open>Covered pieces stay\<close>

text \<open>The game with the covered queen, player 2 to move.\<close>

definition covered_game_p2 :: game_state where
  "covered_game_p2 = passTurn covered_game"

lemma covered_game_p2_fields:
  "board covered_game_p2 = covered_board"
  "currentPlayer covered_game_p2 = P2"
  "queenPlaced covered_game_p2 P2 = True"
  "turnCount covered_game_p2 P2 = 5"
  by (simp_all add: covered_game_p2_def passTurn_def canPassTurn_def endTurn_def opponent_def
      covered_game_fields covered_game_more)

lemma pillbug_game_ids:
  "wf_board (board pillbug_game)"
  "distinct (map id (concat (map snd (board pillbug_game))))"
  by (simp_all add: pillbug_game_def newGame_def wf_board_def board_keys_def pb1_def
      example_pieces)

lemma covered_game_p2_ids:
  "wf_board (board covered_game_p2)"
  "distinct (map id (concat (map snd (board covered_game_p2))))"
  by (simp_all add: covered_game_p2_fields covered_board_def wf_board_def board_keys_def
      example_pieces)

lemma covered_game_p2_drag:
  "handleHexagonMouseDown (Hex 0 0) covered_game = None"
  "handleHexagonMouseDown (Hex 0 0) covered_game_p2 = Some b2"
  "fst (dragFromBoard False (Hex 0 0) [Hex 0 1] (Hex 0 1) 11 covered_game_p2)"
  by (simp_all add: handleHexagonMouseDown_def dragFromBoard_def handleDragEnd_def
      updateDropZoneHighlight_def covered_game_p2_fields covered_game_fields game_eval
      beetle_game_eval covered_board_def example_pieces findPillbugThatCanThrow_def
      findMosquitoThatCanThrow_def)

text \<open>
  C6. On a well-formed board on which every piece id occurs once: the piece that the
  pointer handlers hand to the validation and to \<open>moveInsect\<close> is the top piece of
  its hex and lies below the top of no stack, so no move of a covered piece is validated
  or committed. When a drag commits, the piece that leaves is the top piece of the
  origin hex, and every stack keeps the pieces it had below its top, in their places.
  A throw is offered only for a piece that is alone on its hex, by a thrower that is the
  top piece of its own hex.
\<close>

theorem covered_pieces_pinned:
  assumes "wf_board (board s)"
    and "distinct (map id (concat (map snd (board s))))"
  shows "(handleHexagonMouseDown h s = Some i \<longrightarrow>
            getTopInsect (board s) h = Some i
            \<and> (\<forall>k. i \<notin> set (butlast (getInsectStack (board s) k))))
       \<and> (dragFromBoard tournamentRules h over targetHex now s = (True, s') \<longrightarrow>
            (\<exists>top. getTopInsect (board s) h = Some top
               \<and> (\<forall>k. getInsectStack (board s') k =
                      (if k = h then butlast (getInsectStack (board s) k)
                       else getInsectStack (board s) k)
                      @ (if k = targetHex then [top] else [])))
            \<and> (\<forall>k. take (length (getInsectStack (board s) k) - 1) (getInsectStack (board s') k)
                     = butlast (getInsectStack (board s) k)))
       \<and> ((mt = PillbugThrow throwerHex throwerId \<or> mt = MosquitoThrow throwerHex throwerId)
            \<and> mt \<in> set (getAvailableMovementTypes s j fromHex) \<longrightarrow>
            length (getInsectStack (board s) fromHex) = 1
            \<and> (\<exists>thrower. getTopInsect (board s) throwerHex = Some thrower
                   \<and> id thrower = throwerId))"
proof (intro conjI)
  show "handleHexagonMouseDown h s = Some i \<longrightarrow>
            getTopInsect (board s) h = Some i
            \<and> (\<forall>k. i \<notin> set (butlast (getInsectStack (board s) k)))"
  proof
    assume "handleHexagonMouseDown h s = Some i"
    then have top: "getTopInsect (board s) h = Some i"
      by (auto simp: handleHexagonMouseDown_def Let_def split: option.splits if_splits)
    from top_not_covered [OF assms(2) top] top
    show "getTopInsect (board s) h = Some i
            \<and> (\<forall>k. i \<notin> set (butlast (getInsectStack (board s) k)))"
      by blast
  qed
next
  show "dragFromBoard tournamentRules h over targetHex now s = (True, s') \<longrightarrow>
            (\<exists>top. getTopInsect (board s) h = Some top
               \<and> (\<forall>k. getInsectStack (board s') k =
                      (if k = h then butlast (getInsectStack (board s) k)
                       else getInsectStack (board s) k)
                      @ (if k = targetHex then [top] else [])))
            \<and> (\<forall>k. take (length (getInsectStack (board s) k) - 1) (getInsectStack (board s') k)
                     = butlast (getInsectStack (board s) k))"
  proof
    assume d: "dragFromBoard tournamentRules h over targetHex now s = (True, s')"
    let ?hover = "\<lambda>top. fold (\<lambda>hex s'. snd (updateDropZoneHighlight top hex s')) over s"
    from d obtain top where down: "handleHexagonMouseDown h s = Some top"
      and mv: "moveInsect tournamentRules top targetHex now (?hover top) = (True, s')"
      by (auto simp: dragFromBoard_def handleDragEnd_def split: option.splits)
    from down have top: "getTopInsect (board s) h = Some top"
      by (auto simp: handleHexagonMouseDown_def Let_def split: option.splits if_splits)
    have b: "board (?hover top) = board s" by (rule hover_board)
    from assms top have wf': "wf_board (board (?hover top))"
      and ids': "distinct (map id (concat (map snd (board (?hover top)))))"
      and top': "getTopInsect (board (?hover top)) h = Some top"
      by (simp_all only: b)
    have stacks: "getInsectStack (board s') k =
                      (if k = h then butlast (getInsectStack (board s) k)
                       else getInsectStack (board s) k)
                      @ (if k = targetHex then [top] else [])" for k
      using top_moved_stacks [OF wf' ids' top' mv, of k] by (simp only: b)
    have "take (length (getInsectStack (board s) k) - 1) (getInsectStack (board s') k)
                     = butlast (getInsectStack (board s) k)" for k
      by (simp add: stacks butlast_conv_take)
    with top stacks show "(\<exists>top. getTopInsect (board s) h = Some top
               \<and> (\<forall>k. getInsectStack (board s') k =
                      (if k = h then butlast (getInsectStack (board s) k)
                       else getInsectStack (board s) k)
                      @ (if k = targetHex then [top] else [])))
            \<and> (\<forall>k. take (length (getInsectStack (board s) k) - 1) (getInsectStack (board s') k)
                     = butlast (getInsectStack (board s) k))"
      by blast
  qed
next
  show "(mt = PillbugThrow throwerHex throwerId \<or> mt = MosquitoThrow throwerHex throwerId)
            \<and> mt \<in> set (getAvailableMovementTypes s j fromHex) \<longrightarrow>
            length (getInsectStack (board s) fromHex) = 1
            \<and> (\<exists>thrower. getTopInsect (board s) throwerHex = Some thrower
                   \<and> id thrower = throwerId)"
  proof
    assume a: "(mt = PillbugThrow throwerHex throwerId \<or> mt = MosquitoThrow throwerHex throwerId)
            \<and> mt \<in> set (getAvailableMovementTypes s j fromHex)"
    then have m: "mt \<in> set (getAvailableMovementTypes s j fromHex)"
      and k: "mt = PillbugThrow throwerHex throwerId \<or> mt = MosquitoThrow throwerHex throwerId"
      by simp_all
    from throw_type_thrower [OF m k]
    have can: "canPillbugThrowPiece (board s) throwerHex fromHex (id j)"
      and thrower: "\<exists>thrower. getTopInsect (board s) throwerHex = Some thrower
                      \<and> id thrower = throwerId"
      by auto
    from can have "length (getInsectStack (board s) fromHex) \<noteq> 0"
      and "\<not> 1 < length (getInsectStack (board s) fromHex)"
      by (auto simp: canPillbugThrowPiece_def Let_def split: if_splits)
    then have "length (getInsectStack (board s) fromHex) = 1" by linarith
    with thrower show "length (getInsectStack (board s) fromHex) = 1
            \<and> (\<exists>thrower. getTopInsect (board s) throwerHex = Some thrower
                   \<and> id thrower = throwerId)"
      by blast
  qed
qed

theorem covered_pieces_pinned_witness:
  "getInsectStack (board covered_game_p2) (Hex 0 0) = [q1, b2]
   \<and> getTopInsect (board covered_game_p2) (Hex 0 0) = Some b2
   \<and> b2 \<notin> set (butlast (getInsectStack (board covered_game_p2) (Hex 0 0)))
   \<and> getInsectStack
        (board (snd (dragFromBoard False (Hex 0 0) [Hex 0 1] (Hex 0 1) 11 covered_game_p2)))
        (Hex 0 0) = [q1]
   \<and> getInsectStack
        (board (snd (dragFromBoard False (Hex 0 0) [Hex 0 1] (Hex 0 1) 11 covered_game_p2)))
        (Hex 0 1) = [b2]
   \<and> length (getInsectStack (board pillbug_game) (Hex (-1) 0)) = 1"
proof -
  let ?s' = "snd (dragFromBoard False (Hex 0 0) [Hex 0 1] (Hex 0 1) 11 covered_game_p2)"
  have st: "getInsectStack (board covered_game_p2) (Hex 0 0) = [q1, b2]"
    "getInsectStack (board covered_game_p2) (Hex 0 1) = []"
    by (simp_all add: covered_game_p2_fields covered_board_def getInsectStack_def)
  from covered_game_p2_drag(3)
  have d: "dragFromBoard False (Hex 0 0) [Hex 0 1] (Hex 0 1) 11 covered_game_p2 = (True, ?s')"
    by (simp add: prod_eq_iff)
  have avail: "PillbugThrow (Hex 0 0) (id pb1)
                 \<in> set (getAvailableMovementTypes pillbug_game a1 (Hex (-1) 0))"
    by (simp add: pillbug_game_def newGame_def game_eval throw_eval pb1_def example_pieces)
  note drag = covered_pieces_pinned [OF covered_game_p2_ids, where h = "Hex 0 0" and i = b2
      and tournamentRules = False and over = "[Hex 0 1]" and targetHex = "Hex 0 1"
      and now = 11 and s' = ?s']
  note throw = covered_pieces_pinned [OF pillbug_game_ids,
      where mt = "PillbugThrow (Hex 0 0) (id pb1)" and throwerHex = "Hex 0 0"
        and throwerId = "id pb1" and j = a1 and fromHex = "Hex (-1) 0"]
  from drag covered_game_p2_drag(2)
  have top: "getTopInsect (board covered_game_p2) (Hex 0 0) = Some b2"
    and notcovered: "b2 \<notin> set (butlast (getInsectStack (board covered_game_p2) (Hex 0 0)))"
    by blast+
  from drag d obtain x where x: "getTopInsect (board covered_game_p2) (Hex 0 0) = Some x"
    and stacks: "\<forall>k. getInsectStack (board ?s') k =
                      (if k = Hex 0 0 then butlast (getInsectStack (board covered_game_p2) k)
                       else getInsectStack (board covered_game_p2) k)
                      @ (if k = Hex 0 1 then [x] else [])"
    by blast
  from x top have xb: "x = b2" by simp
  from stacks [rule_format, of "Hex 0 0"] st(1)
  have below: "getInsectStack (board ?s') (Hex 0 0) = [q1]" by simp
  from stacks [rule_format, of "Hex 0 1"] st(2) xb
  have moved: "getInsectStack (board ?s') (Hex 0 1) = [b2]" by simp
  from throw avail
  have one: "length (getInsectStack (board pillbug_game) (Hex (-1) 0)) = 1" by blast
  from st(1) top notcovered below moved one show ?thesis by blast
qed

end
